theory Spec2Isabelle
  imports Main "HOL-Library.AList"
begin

section \<open>Values, objects and the store\<close>

text \<open>
  The module \<^verbatim>\<open>chainer/link.py\<close> manipulates mutable objects that refer to each other:
  links, the parameters bound to their attributes, and the arrays the parameters hold.
  Objects live in a store and are named by references; a Python value is either an
  immutable atom or a reference into the store. Identity (\<^verbatim>\<open>is\<close>) is equality of
  references, and two holders alias the same array when they hold the same reference.
\<close>

type_synonym ref = nat

text \<open>
  \<open>OutsideModel\<close> is not a Python exception: it marks the few situations the embedding does
  not follow (a dangling reference, which Python cannot produce; overwriting or deleting one
  of a link's own bookkeeping attributes; a method call that would dispatch on an object bound
  under the wrong kind of name). No theorem below concludes it.
\<close>

datatype exn = AttributeError | KeyError | IndexError | ValueError | TypeError
  | RuntimeError | RecursionError | NotImplementedError | OutsideModel

text \<open>
  \<open>VFunc name ident\<close> is a function object with its \<^verbatim>\<open>__name__\<close> (a lambda has the name
  \<^verbatim>\<open><lambda>\<close>); \<open>VCallable ident\<close> is a callable object without \<^verbatim>\<open>__name__\<close>, such as a
  \<^verbatim>\<open>functools.partial\<close>; \<open>VOpaque\<close> is a container or module of no further interest
  (what a bookkeeping attribute such as \<^verbatim>\<open>_params\<close> reads as).
\<close>

datatype pyval = VNone | VBool bool | VInt int | VStr string | VTuple "pyval list"
  | VArray ref | VParam ref | VLink ref | VFunc string nat | VCallable nat | VOpaque

datatype device = Host | Gpu int

record ndarray =
  a_device :: device
  a_elems :: "int list"

text \<open>
  Modelled from the spec: the Parameter type (\<^verbatim>\<open>chainer.variable.Parameter\<close> is imported, its
  source is not part of this module). The spec describes it as a value holder with optional
  gradient storage, whose name is overwritten on registration.
\<close>

record parameter =
  p_name :: "string option"
  p_data :: "ref option"
  p_grad :: "ref option"

datatype cls = CLink | CChain | CChainList | CSequential

text \<open>
  One record for the four classes of the module; a field a class does not have keeps its
  initial value. The sets \<^verbatim>\<open>_params\<close>, \<^verbatim>\<open>_persistent\<close> and Chain's \<^verbatim>\<open>_children\<close> are lists
  without duplicates, in the order the set is iterated. \<open>l_dict\<close> holds the entries of
  \<^verbatim>\<open>__dict__\<close> other than the bookkeeping attributes, which are the other fields; it is an
  association list in insertion order, as a Python dictionary is.
  \<open>l_cls_attrs\<close> are the names that resolve on the object's class (its methods), and
  \<open>l_callable\<close> says whether the class defines \<^verbatim>\<open>__call__\<close>: users subclass Link, so both
  vary from object to object.
\<close>

record link =
  l_cls :: cls
  l_cls_attrs :: "string list"
  l_callable :: bool
  l_params :: "string list"
  l_persistent :: "string list"
  l_cpu :: bool
  l_device_id :: "int option"
  l_within_init_scope :: bool
  l_name :: "string option"
  l_dict :: "(string \<times> pyval) list"
  l_children_names :: "string list"
  l_children :: "ref list"
  l_layers :: "pyval list"
  l_n_lambda :: int

record store =
  arrays :: "ref \<rightharpoonup> ndarray"
  params :: "ref \<rightharpoonup> parameter"
  links :: "ref \<rightharpoonup> link"
  next_ref :: ref
  cur_device :: int

definition empty_store :: store where
  "empty_store = \<lparr>arrays = Map.empty, params = Map.empty, links = Map.empty,
     next_ref = 0, cur_device = 0\<rparr>"

definition alloc_array :: "store \<Rightarrow> ndarray \<Rightarrow> ref \<times> store" where
  "alloc_array st a =
     (next_ref st, st\<lparr>arrays := (arrays st)(next_ref st \<mapsto> a), next_ref := Suc (next_ref st)\<rparr>)"

definition alloc_param :: "store \<Rightarrow> parameter \<Rightarrow> ref \<times> store" where
  "alloc_param st p =
     (next_ref st, st\<lparr>params := (params st)(next_ref st \<mapsto> p), next_ref := Suc (next_ref st)\<rparr>)"

definition alloc_link :: "store \<Rightarrow> link \<Rightarrow> ref \<times> store" where
  "alloc_link st l =
     (next_ref st, st\<lparr>links := (links st)(next_ref st \<mapsto> l), next_ref := Suc (next_ref st)\<rparr>)"

definition upd_link :: "store \<Rightarrow> ref \<Rightarrow> (link \<Rightarrow> link) \<Rightarrow> store" where
  "upd_link st r f =
     (case links st r of None \<Rightarrow> st | Some l \<Rightarrow> st\<lparr>links := (links st)(r \<mapsto> f l)\<rparr>)"

definition upd_param :: "store \<Rightarrow> ref \<Rightarrow> (parameter \<Rightarrow> parameter) \<Rightarrow> store" where
  "upd_param st p f =
     (case params st p of None \<Rightarrow> st | Some q \<Rightarrow> st\<lparr>params := (params st)(p \<mapsto> f q)\<rparr>)"

text \<open>Python's \<^verbatim>\<open>set.add\<close> and \<^verbatim>\<open>set.discard\<close> on a set kept as a duplicate-free list.\<close>

definition set_add :: "'a \<Rightarrow> 'a list \<Rightarrow> 'a list" where
  "set_add x xs = (if x \<in> set xs then xs else xs @ [x])"

definition set_discard :: "'a \<Rightarrow> 'a list \<Rightarrow> 'a list" where
  "set_discard x xs = removeAll x xs"

subsection \<open>Attribute lookup\<close>

definition link_slots :: "string list" where
  "link_slots = [''_params'', ''_persistent'', ''_cpu'', ''_device_id'',
     ''_within_init_scope'', ''name'']"

fun slot_names :: "cls \<Rightarrow> string list" where
  "slot_names CLink = link_slots"
| "slot_names CChain = link_slots @ [''_children'']"
| "slot_names CChainList = link_slots @ [''_children'']"
| "slot_names CSequential = link_slots @ [''_children'', ''_layers'', ''_n_lambda'']"

text \<open>The read-only properties of Link: assigning or deleting one raises AttributeError.\<close>

definition property_names :: "string list" where
  "property_names = [''xp'', ''within_init_scope'', ''update_enabled'']"

text \<open>
  Names whose assignment or deletion would replace a bookkeeping attribute, the attribute
  dictionary or the class of the object.
\<close>

definition reserved_names :: "cls \<Rightarrow> string list" where
  "reserved_names c = slot_names c @ [''__dict__'', ''__class__'', ''__weakref__'']"

text \<open>\<^verbatim>\<open>name in self.__dict__\<close>\<close>

definition in_dict :: "link \<Rightarrow> string \<Rightarrow> bool" where
  "in_dict l n \<longleftrightarrow> map_of (l_dict l) n \<noteq> None \<or> n \<in> set (slot_names (l_cls l))"

text \<open>\<^verbatim>\<open>hasattr(self, name)\<close>\<close>

definition has_attr :: "link \<Rightarrow> string \<Rightarrow> bool" where
  "has_attr l n \<longleftrightarrow> in_dict l n \<or> n \<in> set property_names \<or> n \<in> set (l_cls_attrs l)"

definition slot_value :: "link \<Rightarrow> string \<Rightarrow> pyval" where
  "slot_value l n =
     (if n = ''name'' then (case l_name l of None \<Rightarrow> VNone | Some s \<Rightarrow> VStr s)
      else if n = ''_cpu'' then VBool (l_cpu l)
      else if n = ''_device_id'' then (case l_device_id l of None \<Rightarrow> VNone | Some i \<Rightarrow> VInt i)
      else if n = ''_within_init_scope'' then VBool (l_within_init_scope l)
      else if n = ''_n_lambda'' then VInt (l_n_lambda l)
      else VOpaque)"

text \<open>\<^verbatim>\<open>self.__dict__[name]\<close>; \<open>None\<close> is the KeyError.\<close>

definition dict_get :: "link \<Rightarrow> string \<Rightarrow> pyval option" where
  "dict_get l n =
     (if n \<in> set (slot_names (l_cls l)) then Some (slot_value l n) else map_of (l_dict l) n)"

text \<open>\<^verbatim>\<open>object.__setattr__\<close> and \<^verbatim>\<open>object.__delattr__\<close> on a link.\<close>

definition object_setattr :: "store \<Rightarrow> ref \<Rightarrow> string \<Rightarrow> pyval \<Rightarrow> (exn + unit) \<times> store" where
  "object_setattr st r name v =
     (case links st r of None \<Rightarrow> (Inl OutsideModel, st)
      | Some l \<Rightarrow>
          if name \<in> set property_names then (Inl AttributeError, st)
          else if name \<in> set (reserved_names (l_cls l)) then (Inl OutsideModel, st)
          else (Inr (), upd_link st r (\<lambda>l. l\<lparr>l_dict := AList.update name v (l_dict l)\<rparr>)))"

definition object_delattr :: "store \<Rightarrow> ref \<Rightarrow> string \<Rightarrow> (exn + unit) \<times> store" where
  "object_delattr st r name =
     (case links st r of None \<Rightarrow> (Inl OutsideModel, st)
      | Some l \<Rightarrow>
          if name \<in> set property_names then (Inl AttributeError, st)
          else if name \<in> set (reserved_names (l_cls l)) then (Inl OutsideModel, st)
          else if map_of (l_dict l) name = None then (Inl AttributeError, st)
          else (Inr (), upd_link st r (\<lambda>l. l\<lparr>l_dict := AList.delete name (l_dict l)\<rparr>)))"

subsection \<open>Parameters and arrays\<close>

text \<open>
  Modelled from the spec: the array backend and the Parameter's own transfer (the spec lists
  host/device copy and "host/device transfer of itself" as consumed interfaces). An array
  already on the target stays the same object; otherwise the transfer allocates a new array
  with the same elements.
\<close>

definition array_to :: "store \<Rightarrow> device \<Rightarrow> ref \<Rightarrow> ref \<times> store" where
  "array_to st dev a =
     (case arrays st a of None \<Rightarrow> (a, st)
      | Some arr \<Rightarrow> if a_device arr = dev then (a, st) else alloc_array st (arr\<lparr>a_device := dev\<rparr>))"

definition opt_array_to :: "store \<Rightarrow> device \<Rightarrow> ref option \<Rightarrow> ref option \<times> store" where
  "opt_array_to st dev ao =
     (case ao of None \<Rightarrow> (None, st)
      | Some a \<Rightarrow> (case array_to st dev a of (a', st') \<Rightarrow> (Some a', st')))"

definition param_to :: "store \<Rightarrow> device \<Rightarrow> ref \<Rightarrow> store" where
  "param_to st dev p =
     (case params st p of None \<Rightarrow> st
      | Some q \<Rightarrow>
          (case opt_array_to st dev (p_data q) of (d, st1) \<Rightarrow>
           (case opt_array_to st1 dev (p_grad q) of (g, st2) \<Rightarrow>
              upd_param st2 p (\<lambda>q. q\<lparr>p_data := d, p_grad := g\<rparr>))))"

definition target_device :: "store \<Rightarrow> int option \<Rightarrow> device" where
  "target_device st d = (case d of None \<Rightarrow> Gpu (cur_device st) | Some i \<Rightarrow> Gpu i)"

section \<open>Link\<close>

text \<open>\<^verbatim>\<open>Link.__init__\<close> without the deprecated keyword parameters.\<close>

definition new_link :: "cls \<Rightarrow> string list \<Rightarrow> bool \<Rightarrow> link" where
  "new_link c attrs callable =
     \<lparr>l_cls = c, l_cls_attrs = attrs, l_callable = callable, l_params = [], l_persistent = [],
      l_cpu = True, l_device_id = None, l_within_init_scope = False, l_name = None,
      l_dict = [], l_children_names = [], l_children = [], l_layers = [],
      l_n_lambda = 0\<rparr>"

definition Link_init :: "store \<Rightarrow> cls \<Rightarrow> string list \<Rightarrow> bool \<Rightarrow> ref \<times> store" where
  "Link_init st c attrs callable = alloc_link st (new_link c attrs callable)"

text \<open>
  \<^verbatim>\<open>Link.init_scope\<close>: the body runs with the flag set, and the flag is restored in the
  \<^verbatim>\<open>finally\<close> clause whether or not the body raised.
\<close>

definition init_scope ::
  "store \<Rightarrow> ref \<Rightarrow> (store \<Rightarrow> (exn + 'a) \<times> store) \<Rightarrow> (exn + 'a) \<times> store" where
  "init_scope st r body =
     (case links st r of None \<Rightarrow> (Inl OutsideModel, st)
      | Some l \<Rightarrow>
          (case body (upd_link st r (\<lambda>l. l\<lparr>l_within_init_scope := True\<rparr>)) of
             (res, st2) \<Rightarrow>
               (res, upd_link st2 r (\<lambda>l'. l'\<lparr>l_within_init_scope := l_within_init_scope l\<rparr>))))"

text \<open>\<^verbatim>\<open>Link.__setattr__\<close>\<close>

definition Link_setattr :: "store \<Rightarrow> ref \<Rightarrow> string \<Rightarrow> pyval \<Rightarrow> (exn + unit) \<times> store" where
  "Link_setattr st r name v =
     (case links st r of None \<Rightarrow> (Inl OutsideModel, st)
      | Some l \<Rightarrow>
          (case v of
             VParam p \<Rightarrow>
               if l_within_init_scope l then
                 let st1 = upd_param st p (\<lambda>q. q\<lparr>p_name := Some name\<rparr>);
                     st2 = (if \<not> l_cpu l then param_to st1 (target_device st1 (l_device_id l)) p
                            else st1);
                     st3 = upd_link st2 r (\<lambda>l. l\<lparr>l_params := set_add name (l_params l),
                             l_persistent := set_discard name (l_persistent l)\<rparr>)
                 in object_setattr st3 r name v
               else object_setattr st r name v
           | _ \<Rightarrow> object_setattr st r name v))"

text \<open>\<^verbatim>\<open>Link.__delattr__\<close>\<close>

definition Link_delattr :: "store \<Rightarrow> ref \<Rightarrow> string \<Rightarrow> (exn + unit) \<times> store" where
  "Link_delattr st r name =
     object_delattr
       (upd_link st r (\<lambda>l. l\<lparr>l_params := set_discard name (l_params l),
          l_persistent := set_discard name (l_persistent l)\<rparr>)) r name"

text \<open>\<^verbatim>\<open>Link.add_persistent\<close>: the value is written into \<^verbatim>\<open>__dict__\<close> directly.\<close>

definition Link_add_persistent ::
  "store \<Rightarrow> ref \<Rightarrow> string \<Rightarrow> pyval \<Rightarrow> (exn + unit) \<times> store" where
  "Link_add_persistent st r name v =
     (case links st r of None \<Rightarrow> (Inl OutsideModel, st)
      | Some l \<Rightarrow>
          if in_dict l name then (Inl AttributeError, st)
          else (Inr (), upd_link st r (\<lambda>l. l\<lparr>l_persistent := set_add name (l_persistent l),
                  l_params := set_discard name (l_params l),
                  l_dict := AList.update name v (l_dict l)\<rparr>)))"

text \<open>\<^verbatim>\<open>Link.register_persistent\<close>\<close>

definition Link_register_persistent :: "store \<Rightarrow> ref \<Rightarrow> string \<Rightarrow> (exn + unit) \<times> store" where
  "Link_register_persistent st r name =
     (case links st r of None \<Rightarrow> (Inl OutsideModel, st)
      | Some l \<Rightarrow>
          if \<not> has_attr l name then (Inl AttributeError, st)
          else (Inr (), upd_link st r (\<lambda>l. l\<lparr>l_persistent := set_add name (l_persistent l),
                  l_params := set_discard name (l_params l)\<rparr>)))"

section \<open>Chain\<close>

text \<open>\<^verbatim>\<open>Chain.__setattr__\<close>: the conflict is detected before anything is changed.\<close>

definition Chain_setattr :: "store \<Rightarrow> ref \<Rightarrow> string \<Rightarrow> pyval \<Rightarrow> (exn + unit) \<times> store" where
  "Chain_setattr st r name v =
     (case links st r of None \<Rightarrow> (Inl OutsideModel, st)
      | Some l \<Rightarrow>
          (case v of
             VLink c \<Rightarrow>
               if l_within_init_scope l then
                 if has_attr l name then (Inl AttributeError, st)
                 else
                   let st1 = upd_link st c (\<lambda>k. k\<lparr>l_name := Some name\<rparr>);
                       st2 = upd_link st1 r
                               (\<lambda>l. l\<lparr>l_children_names := set_add name (l_children_names l)\<rparr>)
                   in Link_setattr st2 r name v
               else Link_setattr st r name v
           | _ \<Rightarrow> Link_setattr st r name v))"

text \<open>\<^verbatim>\<open>Chain.__delattr__\<close>\<close>

definition Chain_delattr :: "store \<Rightarrow> ref \<Rightarrow> string \<Rightarrow> (exn + unit) \<times> store" where
  "Chain_delattr st r name =
     Link_delattr
       (upd_link st r (\<lambda>l. l\<lparr>l_children_names := set_discard name (l_children_names l)\<rparr>))
       r name"

text \<open>\<^verbatim>\<open>setattr(obj, name, value)\<close> and \<^verbatim>\<open>del obj.name\<close>: the class of the object decides.\<close>

definition setattr :: "store \<Rightarrow> ref \<Rightarrow> string \<Rightarrow> pyval \<Rightarrow> (exn + unit) \<times> store" where
  "setattr st r name v =
     (case links st r of None \<Rightarrow> (Inl OutsideModel, st)
      | Some l \<Rightarrow> if l_cls l = CChain then Chain_setattr st r name v
                  else Link_setattr st r name v)"

definition delattr :: "store \<Rightarrow> ref \<Rightarrow> string \<Rightarrow> (exn + unit) \<times> store" where
  "delattr st r name =
     (case links st r of None \<Rightarrow> (Inl OutsideModel, st)
      | Some l \<Rightarrow> if l_cls l = CChain then Chain_delattr st r name
                  else Link_delattr st r name)"

text \<open>
  \<^verbatim>\<open>Chain.add_link\<close> (deprecated; the warning it emits is not part of the state).
\<close>

definition Chain_add_link :: "store \<Rightarrow> ref \<Rightarrow> string \<Rightarrow> pyval \<Rightarrow> (exn + unit) \<times> store" where
  "Chain_add_link st r name v =
     (case links st r of None \<Rightarrow> (Inl OutsideModel, st)
      | Some l \<Rightarrow>
          if in_dict l name then (Inl AttributeError, st)
          else (case v of
                  VLink c \<Rightarrow> init_scope st r (\<lambda>st1. setattr st1 r name v)
                | _ \<Rightarrow> (Inl TypeError, st)))"

section \<open>Device transfer\<close>

text \<open>
  The first loop of \<^verbatim>\<open>Link.to_cpu\<close>: \<^verbatim>\<open>d[name].to_cpu()\<close> for every registered parameter name.
\<close>

fun to_cpu_params :: "store \<Rightarrow> ref \<Rightarrow> string list \<Rightarrow> (exn + unit) \<times> store" where
  "to_cpu_params st r [] = (Inr (), st)"
| "to_cpu_params st r (n # ns) =
     (case links st r of None \<Rightarrow> (Inl OutsideModel, st)
      | Some l \<Rightarrow>
          (case dict_get l n of
             None \<Rightarrow> (Inl KeyError, st)
           | Some (VParam p) \<Rightarrow> to_cpu_params (param_to st Host p) r ns
           | Some (VLink c) \<Rightarrow> (Inl OutsideModel, st)
           | Some _ \<Rightarrow> (Inl AttributeError, st)))"

text \<open>
  The second loop: a persistent value that is a device array is replaced by its host copy
  (\<^verbatim>\<open>value.get()\<close>), any other value is left alone.
\<close>

fun to_cpu_persistent :: "store \<Rightarrow> ref \<Rightarrow> string list \<Rightarrow> (exn + unit) \<times> store" where
  "to_cpu_persistent st r [] = (Inr (), st)"
| "to_cpu_persistent st r (n # ns) =
     (case links st r of None \<Rightarrow> (Inl OutsideModel, st)
      | Some l \<Rightarrow>
          (case dict_get l n of
             None \<Rightarrow> (Inl KeyError, st)
           | Some (VArray a) \<Rightarrow>
               (case arrays st a of
                  None \<Rightarrow> to_cpu_persistent st r ns
                | Some arr \<Rightarrow>
                    (case a_device arr of
                       Host \<Rightarrow> to_cpu_persistent st r ns
                     | Gpu i \<Rightarrow>
                         (case alloc_array st (arr\<lparr>a_device := Host\<rparr>) of
                            (a', st1) \<Rightarrow>
                              to_cpu_persistent
                                (upd_link st1 r
                                   (\<lambda>l. l\<lparr>l_dict := AList.update n (VArray a') (l_dict l)\<rparr>))
                                r ns)))
           | Some _ \<Rightarrow> to_cpu_persistent st r ns))"

text \<open>\<^verbatim>\<open>Link.to_cpu\<close> (the method returns \<^verbatim>\<open>self\<close>; the model returns the store).\<close>

definition Link_to_cpu :: "store \<Rightarrow> ref \<Rightarrow> (exn + unit) \<times> store" where
  "Link_to_cpu st r =
     (case links st r of None \<Rightarrow> (Inl OutsideModel, st)
      | Some l \<Rightarrow>
          if l_cpu l then (Inr (), st)
          else
            (case to_cpu_params st r (l_params l) of
               (Inl e, st1) \<Rightarrow> (Inl e, st1)
             | (Inr u, st1) \<Rightarrow>
                 (case to_cpu_persistent st1 r (l_persistent l) of
                    (Inl e, st2) \<Rightarrow> (Inl e, st2)
                  | (Inr u, st2) \<Rightarrow>
                      (Inr (), upd_link st2 r (\<lambda>l. l\<lparr>l_cpu := True, l_device_id := None\<rparr>)))))"

text \<open>
  The loop of \<^verbatim>\<open>Chain.to_cpu\<close>, \<^verbatim>\<open>for name in self._children: d[name].to_cpu()\<close>.
  \<open>go\<close> is the \<^verbatim>\<open>to_cpu\<close> method of the child, which depends on the child's class. The
  source keeps the child names of a Chain in a set; the model visits them in the order of
  its list.
\<close>

fun to_cpu_named ::
  "(store \<Rightarrow> ref \<Rightarrow> (exn + unit) \<times> store) \<Rightarrow> store \<Rightarrow> ref \<Rightarrow> string list
     \<Rightarrow> (exn + unit) \<times> store" where
  "to_cpu_named go st r [] = (Inr (), st)"
| "to_cpu_named go st r (n # ns) =
     (case links st r of None \<Rightarrow> (Inl OutsideModel, st)
      | Some l \<Rightarrow>
          (case dict_get l n of
             None \<Rightarrow> (Inl KeyError, st)
           | Some (VLink c) \<Rightarrow>
               (case go st c of
                  (Inl e, st1) \<Rightarrow> (Inl e, st1)
                | (Inr u, st1) \<Rightarrow> to_cpu_named go st1 r ns)
           | Some (VParam p) \<Rightarrow> (Inl OutsideModel, st)
           | Some _ \<Rightarrow> (Inl AttributeError, st)))"

text \<open>The loop of \<^verbatim>\<open>ChainList.to_cpu\<close>, \<^verbatim>\<open>for link in self._children: link.to_cpu()\<close>.\<close>

fun to_cpu_listed ::
  "(store \<Rightarrow> ref \<Rightarrow> (exn + unit) \<times> store) \<Rightarrow> store \<Rightarrow> ref list \<Rightarrow> (exn + unit) \<times> store" where
  "to_cpu_listed go st [] = (Inr (), st)"
| "to_cpu_listed go st (c # cs) =
     (case go st c of
        (Inl e, st1) \<Rightarrow> (Inl e, st1)
      | (Inr u, st1) \<Rightarrow> to_cpu_listed go st1 cs)"

text \<open>
  \<^verbatim>\<open>Chain.to_cpu\<close> and \<^verbatim>\<open>ChainList.to_cpu\<close>: the method of Link on the node itself, then
  the children, whether or not the node was in host state already.
\<close>

definition Chain_to_cpu ::
  "(store \<Rightarrow> ref \<Rightarrow> (exn + unit) \<times> store) \<Rightarrow> store \<Rightarrow> ref \<Rightarrow> (exn + unit) \<times> store" where
  "Chain_to_cpu go st r =
     (case Link_to_cpu st r of
        (Inl e, st1) \<Rightarrow> (Inl e, st1)
      | (Inr u, st1) \<Rightarrow>
          (case links st1 r of None \<Rightarrow> (Inl OutsideModel, st1)
           | Some l \<Rightarrow> to_cpu_named go st1 r (l_children_names l)))"

definition ChainList_to_cpu ::
  "(store \<Rightarrow> ref \<Rightarrow> (exn + unit) \<times> store) \<Rightarrow> store \<Rightarrow> ref \<Rightarrow> (exn + unit) \<times> store" where
  "ChainList_to_cpu go st r =
     (case Link_to_cpu st r of
        (Inl e, st1) \<Rightarrow> (Inl e, st1)
      | (Inr u, st1) \<Rightarrow>
          (case links st1 r of None \<Rightarrow> (Inl OutsideModel, st1)
           | Some l \<Rightarrow> to_cpu_listed go st1 (l_children l)))"

text \<open>
  \<^verbatim>\<open>link.to_cpu()\<close>: the class of the object selects the method (Sequential inherits the
  one of ChainList). The first argument is the depth of calls still available.
\<close>

primrec to_cpu :: "nat \<Rightarrow> store \<Rightarrow> ref \<Rightarrow> (exn + unit) \<times> store" where
  "to_cpu 0 = (\<lambda>st r. (Inl RecursionError, st))"
| "to_cpu (Suc k) =
     (\<lambda>st r. case links st r of None \<Rightarrow> (Inl OutsideModel, st)
        | Some l \<Rightarrow>
            (case l_cls l of
               CLink \<Rightarrow> Link_to_cpu st r
             | CChain \<Rightarrow> Chain_to_cpu (to_cpu k) st r
             | CChainList \<Rightarrow> ChainList_to_cpu (to_cpu k) st r
             | CSequential \<Rightarrow> ChainList_to_cpu (to_cpu k) st r))"

section \<open>Copying\<close>









section \<open>ChainList\<close>

text \<open>Python's \<^verbatim>\<open>str\<close> of a non-negative integer.\<close>

definition digit_chars :: string where
  "digit_chars = ''0123456789''"

function str_nat :: "nat \<Rightarrow> string" where
  "str_nat n = (if n < 10 then [digit_chars ! n]
                else str_nat (n div 10) @ [digit_chars ! (n mod 10)])"
  by pat_completeness auto
termination
  by (relation "measure id") auto

declare str_nat.simps [simp del]

text \<open>\<^verbatim>\<open>ChainList.add_link\<close>\<close>

definition ChainList_add_link :: "store \<Rightarrow> ref \<Rightarrow> ref \<Rightarrow> store" where
  "ChainList_add_link st r c =
     (case links st r of None \<Rightarrow> st
      | Some l \<Rightarrow>
          upd_link (upd_link st c (\<lambda>k. k\<lparr>l_name := Some (str_nat (length (l_children l)))\<rparr>)) r
            (\<lambda>l. l\<lparr>l_children := l_children l @ [c]\<rparr>))"



section \<open>Sequential\<close>

text \<open>\<^verbatim>\<open>list.insert\<close> and \<^verbatim>\<open>list.pop\<close> with Python's treatment of the index.\<close>

definition py_insert :: "int \<Rightarrow> 'a \<Rightarrow> 'a list \<Rightarrow> 'a list" where
  "py_insert i x xs =
     (let n = int (length xs);
          j = (if i < 0 then max 0 (i + n) else min i n)
      in take (nat j) xs @ x # drop (nat j) xs)"

definition py_pop :: "int \<Rightarrow> 'a list \<Rightarrow> exn + 'a \<times> 'a list" where
  "py_pop i xs =
     (let n = int (length xs);
          j = (if i < 0 then i + n else i)
      in if 0 \<le> j \<and> j < n then Inr (xs ! nat j, take (nat j) xs @ drop (Suc (nat j)) xs)
         else Inl IndexError)"

text \<open>\<^verbatim>\<open>callable(layer)\<close>: a link is callable when its class defines \<^verbatim>\<open>__call__\<close>.\<close>

definition is_callable :: "store \<Rightarrow> pyval \<Rightarrow> bool" where
  "is_callable st v =
     (case v of
        VLink c \<Rightarrow> (case links st c of None \<Rightarrow> False | Some k \<Rightarrow> l_callable k)
      | VFunc n i \<Rightarrow> True
      | VCallable i \<Rightarrow> True
      | _ \<Rightarrow> False)"

text \<open>
  \<^verbatim>\<open>callable(layer) and hasattr(layer, '__name__') and layer.__name__ == '<lambda>'\<close>,
  on a layer that is not a link.
\<close>

definition is_lambda :: "pyval \<Rightarrow> bool" where
  "is_lambda v = (case v of VFunc n i \<Rightarrow> n = ''<lambda>'' | _ \<Rightarrow> False)"

text \<open>\<^verbatim>\<open>Sequential.insert\<close>\<close>

definition Sequential_insert :: "store \<Rightarrow> ref \<Rightarrow> int \<Rightarrow> pyval \<Rightarrow> (exn + unit) \<times> store" where
  "Sequential_insert st r i layer =
     (case links st r of None \<Rightarrow> (Inl OutsideModel, st)
      | Some l \<Rightarrow>
          if \<not> is_callable st layer then (Inl ValueError, st)
          else
            let st1 = upd_link st r (\<lambda>l. l\<lparr>l_layers := py_insert i layer (l_layers l)\<rparr>)
            in (case layer of
                  VLink c \<Rightarrow> (Inr (), ChainList_add_link st1 r c)
                | _ \<Rightarrow>
                    if is_lambda layer
                    then (Inr (), upd_link st1 r (\<lambda>l. l\<lparr>l_n_lambda := l_n_lambda l + 1\<rparr>))
                    else (Inr (), st1)))"

text \<open>\<^verbatim>\<open>Sequential.append\<close>\<close>

definition Sequential_append :: "store \<Rightarrow> ref \<Rightarrow> pyval \<Rightarrow> (exn + unit) \<times> store" where
  "Sequential_append st r layer =
     (case links st r of None \<Rightarrow> (Inl OutsideModel, st)
      | Some l \<Rightarrow> Sequential_insert st r (int (length (l_layers l))) layer)"

text \<open>
  \<^verbatim>\<open>Sequential.__delitem__\<close>: the first entry of the child list that is the removed layer
  is deleted; no child is renamed.
\<close>

definition Sequential_delitem :: "store \<Rightarrow> ref \<Rightarrow> int \<Rightarrow> (exn + unit) \<times> store" where
  "Sequential_delitem st r i =
     (case links st r of None \<Rightarrow> (Inl OutsideModel, st)
      | Some l \<Rightarrow>
          (case py_pop i (l_layers l) of
             Inl e \<Rightarrow> (Inl e, st)
           | Inr (layer, rest) \<Rightarrow>
               let st1 = upd_link st r (\<lambda>l. l\<lparr>l_layers := rest\<rparr>)
               in (case layer of
                     VLink c \<Rightarrow>
                       (Inr (), upd_link st1 r (\<lambda>l. l\<lparr>l_children := remove1 c (l_children l)\<rparr>))
                   | _ \<Rightarrow>
                       if is_lambda layer
                       then (Inr (), upd_link st1 r (\<lambda>l. l\<lparr>l_n_lambda := l_n_lambda l - 1\<rparr>))
                       else (Inr (), st1))))"

text \<open>
  The loop of \<^verbatim>\<open>Sequential.clear\<close>,
  \<^verbatim>\<open>for i, link in enumerate(self._children): del self._children[i]\<close>:
  the iterator advances over the list the body shortens.
\<close>

function clear_loop :: "nat \<Rightarrow> 'a list \<Rightarrow> 'a list" where
  "clear_loop i xs =
     (if i < length xs then clear_loop (Suc i) (take i xs @ drop (Suc i) xs) else xs)"
  by pat_completeness auto
termination
  by (relation "measure (\<lambda>(i, xs). length xs - i)") auto

declare clear_loop.simps [simp del]

text \<open>\<^verbatim>\<open>Sequential.clear\<close>: the counter of lambdas is not touched.\<close>

definition Sequential_clear :: "store \<Rightarrow> ref \<Rightarrow> (exn + unit) \<times> store" where
  "Sequential_clear st r =
     (case links st r of None \<Rightarrow> (Inl OutsideModel, st)
      | Some l \<Rightarrow>
          (Inr (), upd_link st r
             (\<lambda>l. l\<lparr>l_children := clear_loop 0 (l_children l), l_layers := []\<rparr>)))"

text \<open>
  The names that resolve on the class Sequential itself: the methods this module defines
  for Link, ChainList and Sequential.
\<close>

definition sequential_cls_attrs :: "string list" where
  "sequential_cls_attrs =
     [''__init__'', ''__setattr__'', ''__delattr__'', ''init_scope'', ''add_param'',
      ''add_persistent'', ''register_persistent'', ''copy'', ''to_cpu'', ''to_gpu'', ''params'',
      ''namedparams'', ''links'', ''namedlinks'', ''children'', ''copyparams'', ''cleargrads'',
      ''zerograds'', ''addgrads'', ''enable_update'', ''disable_update'', ''serialize'',
      ''__getitem__'', ''__iter__'', ''__len__'', ''append'', ''add_link'', ''__setitem__'',
      ''__delitem__'', ''__reversed__'', ''__contains__'', ''__add__'', ''__radd__'',
      ''__iadd__'', ''__mul__'', ''__rmul__'', ''__imul__'', ''__call__'', ''__reduce__'',
      ''__str__'', ''extend'', ''insert'', ''remove'', ''remove_by_layer_type'', ''pop'',
      ''clear'', ''index'', ''count'', ''count_by_layer_type'', ''sort'', ''reverse'']"

fun append_all :: "store \<Rightarrow> ref \<Rightarrow> pyval list \<Rightarrow> (exn + unit) \<times> store" where
  "append_all st r [] = (Inr (), st)"
| "append_all st r (x # xs) =
     (case Sequential_append st r x of
        (Inl e, st1) \<Rightarrow> (Inl e, st1)
      | (Inr u, st1) \<Rightarrow> append_all st1 r xs)"

text \<open>\<^verbatim>\<open>Sequential(*layers)\<close>\<close>

definition Sequential_init :: "store \<Rightarrow> pyval list \<Rightarrow> (exn + ref) \<times> store" where
  "Sequential_init st layers =
     (case alloc_link st (new_link CSequential sequential_cls_attrs True) of
        (r, st0) \<Rightarrow>
          (case append_all st0 r layers of
             (Inl e, st1) \<Rightarrow> (Inl e, st1)
           | (Inr u, st1) \<Rightarrow> (Inr r, st1)))"




text \<open>\<^verbatim>\<open>Sequential.__reduce__\<close>: the check that precedes the inherited reduction.\<close>

definition Sequential_reduce :: "store \<Rightarrow> ref \<Rightarrow> (exn + unit) \<times> store" where
  "Sequential_reduce st r =
     (case links st r of None \<Rightarrow> (Inl OutsideModel, st)
      | Some l \<Rightarrow> if 0 < l_n_lambda l then (Inl ValueError, st) else (Inr (), st))"

subsection \<open>The forward pass\<close>

text \<open>
  What calling a layer does is the layer's own code, not this module's: \<open>beh layer args st\<close>
  is the result of \<^verbatim>\<open>layer(*args)\<close> in the store \<open>st\<close>.
\<close>

type_synonym behaviour = "pyval \<Rightarrow> pyval list \<Rightarrow> store \<Rightarrow> (exn + pyval) \<times> store"

fun call_layers :: "behaviour \<Rightarrow> pyval list \<Rightarrow> pyval \<Rightarrow> store \<Rightarrow> (exn + pyval) \<times> store" where
  "call_layers beh [] x st = (Inr x, st)"
| "call_layers beh (layer # ls) x st =
     (case (case x of VTuple xs \<Rightarrow> beh layer xs st | _ \<Rightarrow> beh layer [x] st) of
        (Inl e, st1) \<Rightarrow> (Inl e, st1)
      | (Inr y, st1) \<Rightarrow> call_layers beh ls y st1)"

text \<open>\<^verbatim>\<open>Sequential.__call__(self, *x)\<close>: \<open>x\<close> starts as the tuple of the arguments.\<close>

definition Sequential_call ::
  "behaviour \<Rightarrow> store \<Rightarrow> ref \<Rightarrow> pyval list \<Rightarrow> (exn + pyval) \<times> store" where
  "Sequential_call beh st r args =
     (case links st r of None \<Rightarrow> (Inl OutsideModel, st)
      | Some l \<Rightarrow> call_layers beh (l_layers l) (VTuple args) st)"

subsection \<open>Repetition\<close>
















section \<open>Sequences of registration operations\<close>

text \<open>
  The operations that change the registry of a link, as a caller issues them: attribute
  assignment and deletion, \<^verbatim>\<open>add_persistent\<close>, \<^verbatim>\<open>register_persistent\<close>, a
  \<^verbatim>\<open>with link.init_scope():\<close> block, and a \<^verbatim>\<open>try\<close> block that swallows the exception of
  its body. A sequence stops at the first operation that raises.
\<close>

datatype reg_op =
    SetAttr ref string pyval
  | DelAttr ref string
  | AddPersistent ref string pyval
  | RegisterPersistent ref string
  | InitScope ref "reg_op list"
  | TryExcept "reg_op list"

fun run_op :: "store \<Rightarrow> reg_op \<Rightarrow> (exn + unit) \<times> store"
and run_ops :: "store \<Rightarrow> reg_op list \<Rightarrow> (exn + unit) \<times> store" where
  "run_op st (SetAttr r n v) = setattr st r n v"
| "run_op st (DelAttr r n) = delattr st r n"
| "run_op st (AddPersistent r n v) = Link_add_persistent st r n v"
| "run_op st (RegisterPersistent r n) = Link_register_persistent st r n"
| "run_op st (InitScope r ops) =
     (case links st r of None \<Rightarrow> (Inl OutsideModel, st)
      | Some l \<Rightarrow>
          (case run_ops (upd_link st r (\<lambda>l. l\<lparr>l_within_init_scope := True\<rparr>)) ops of
             (res, st2) \<Rightarrow>
               (res, upd_link st2 r (\<lambda>l'. l'\<lparr>l_within_init_scope := l_within_init_scope l\<rparr>))))"
| "run_op st (TryExcept ops) = (Inr (), snd (run_ops st ops))"
| "run_ops st [] = (Inr (), st)"
| "run_ops st (x # xs) =
     (case run_op st x of
        (Inl e, st1) \<Rightarrow> (Inl e, st1)
      | (Inr u, st1) \<Rightarrow> run_ops st1 xs)"

text \<open>The names an operation assigns or deletes, with the class of the link it addresses.\<close>

fun op_modelled :: "store \<Rightarrow> reg_op \<Rightarrow> bool" where
  "op_modelled st (SetAttr r n v) =
     (case links st r of None \<Rightarrow> False | Some l \<Rightarrow> n \<notin> set (reserved_names (l_cls l)))"
| "op_modelled st (DelAttr r n) =
     (case links st r of None \<Rightarrow> False | Some l \<Rightarrow> n \<notin> set (reserved_names (l_cls l)))"
| "op_modelled st (AddPersistent r n v) = (links st r \<noteq> None)"
| "op_modelled st (RegisterPersistent r n) = (links st r \<noteq> None)"
| "op_modelled st (InitScope r ops) = (links st r \<noteq> None \<and> list_all (op_modelled st) ops)"
| "op_modelled st (TryExcept ops) = list_all (op_modelled st) ops"

section \<open>Observations and invariants\<close>

text \<open>A link keeps its two name sets apart; the registry is sound when every link does.\<close>

definition link_disjoint :: "link \<Rightarrow> bool" where
  "link_disjoint l \<longleftrightarrow> set (l_params l) \<inter> set (l_persistent l) = {}"

definition registry_disjoint :: "store \<Rightarrow> bool" where
  "registry_disjoint st \<longleftrightarrow> (\<forall>r l. links st r = Some l \<longrightarrow> link_disjoint l)"

text \<open>The \<^verbatim>\<open>name\<close> of every child of a ChainList, in the order of the child list.\<close>

definition child_names :: "store \<Rightarrow> ref \<Rightarrow> string option list" where
  "child_names st r =
     (case links st r of None \<Rightarrow> []
      | Some l \<Rightarrow>
          map (\<lambda>c. case links st c of None \<Rightarrow> None | Some k \<Rightarrow> l_name k) (l_children l))"

definition layers_of :: "store \<Rightarrow> ref \<Rightarrow> pyval list" where
  "layers_of st r = (case links st r of None \<Rightarrow> [] | Some l \<Rightarrow> l_layers l)"

text \<open>
  References are handed out in increasing order: nothing is stored at or beyond the next
  reference. One store extends another when every object of the first is unchanged in the
  second.
\<close>

definition heap_ok :: "store \<Rightarrow> bool" where
  "heap_ok st \<longleftrightarrow>
     (\<forall>x. next_ref st \<le> x \<longrightarrow>
        arrays st x = None \<and> params st x = None \<and> links st x = None)"

definition store_le :: "store \<Rightarrow> store \<Rightarrow> bool" where
  "store_le st st' \<longleftrightarrow>
     arrays st \<subseteq>\<^sub>m arrays st' \<and> params st \<subseteq>\<^sub>m params st' \<and> links st \<subseteq>\<^sub>m links st' \<and>
     next_ref st \<le> next_ref st'"

text \<open>Every registered parameter name of the link is bound to a Parameter of the store.\<close>

definition params_bound :: "store \<Rightarrow> link \<Rightarrow> bool" where
  "params_bound st l \<longleftrightarrow>
     list_all (\<lambda>n. case dict_get l n of
                     Some (VParam p) \<Rightarrow> params st p \<noteq> None
                   | _ \<Rightarrow> False) (l_params l)"

text \<open>
  A hierarchy that \<^verbatim>\<open>copy()\<close> can traverse within \<open>k\<close> nested calls: parameter names are
  bound to parameters, the child names of a Chain to links, and the layers of a Sequential are
  callable.
\<close>

definition child_ready :: "(store \<Rightarrow> ref \<Rightarrow> bool) \<Rightarrow> store \<Rightarrow> link \<Rightarrow> string \<Rightarrow> bool" where
  "child_ready ready st l n =
     (case dict_get l n of Some (VLink c) \<Rightarrow> ready st c | _ \<Rightarrow> False)"





text \<open>The value of an attribute of a link, read from the store.\<close>

definition attr_of :: "store \<Rightarrow> ref \<Rightarrow> string \<Rightarrow> pyval option" where
  "attr_of st r n = (case links st r of None \<Rightarrow> None | Some l \<Rightarrow> dict_get l n)"

text \<open>
  The value array of each registered parameter of a link, in the order of the names
  (\<open>None\<close> for a parameter without a value yet).
\<close>

definition own_data :: "store \<Rightarrow> ref \<Rightarrow> ref option list" where
  "own_data st c =
     (case links st c of None \<Rightarrow> []
      | Some l \<Rightarrow>
          map (\<lambda>n. case dict_get l n of
                     Some (VParam p) \<Rightarrow> (case params st p of None \<Rightarrow> None | Some q \<Rightarrow> p_data q)
                   | _ \<Rightarrow> None) (l_params l))"

text \<open>
  A hierarchy in host state, as \<^verbatim>\<open>to_cpu\<close> sees it within \<open>k\<close> nested calls: the node and
  every descendant carry the flag \<^verbatim>\<open>_cpu\<close>, and the child names of a Chain are bound to
  links.
\<close>

primrec on_host :: "nat \<Rightarrow> store \<Rightarrow> ref \<Rightarrow> bool" where
  "on_host 0 = (\<lambda>st r. False)"
| "on_host (Suc k) =
     (\<lambda>st r. case links st r of None \<Rightarrow> False
        | Some l \<Rightarrow>
            l_cpu l \<and>
            (case l_cls l of
               CLink \<Rightarrow> True
             | CChain \<Rightarrow> list_all (child_ready (on_host k) st l) (l_children_names l)
             | CChainList \<Rightarrow> list_all (on_host k st) (l_children l)
             | CSequential \<Rightarrow> list_all (on_host k st) (l_children l)))"

text \<open>No link that is in host state is changed from the first store to the second.\<close>

definition host_frame :: "store \<Rightarrow> store \<Rightarrow> bool" where
  "host_frame st st' \<longleftrightarrow> (\<forall>x l. links st x = Some l \<and> l_cpu l \<longrightarrow> links st' x = Some l)"

text \<open>
  The layers that the statement about repetition covers. An attribute value is simple when
  \<^verbatim>\<open>copy.deepcopy\<close> duplicates it without following a link: an atom, a function, an array of
  the store, or a parameter of the store whose value and gradient are arrays of the store or
  absent.
\<close>

definition simple_value :: "store \<Rightarrow> pyval \<Rightarrow> bool" where
  "simple_value st v =
     (case v of
        VArray a \<Rightarrow> arrays st a \<noteq> None
      | VParam p \<Rightarrow>
          (case params st p of None \<Rightarrow> False
           | Some q \<Rightarrow>
               (case p_data q of None \<Rightarrow> True | Some a \<Rightarrow> arrays st a \<noteq> None) \<and>
               (case p_grad q of None \<Rightarrow> True | Some a \<Rightarrow> arrays st a \<noteq> None))
      | VLink c \<Rightarrow> False
      | VTuple vs \<Rightarrow> False
      | _ \<Rightarrow> True)"

text \<open>
  A plain callable link: of class Link, without children or layers, its parameter names bound
  to parameters, its attributes simple values.
\<close>

definition leaf_ok :: "store \<Rightarrow> ref \<Rightarrow> bool" where
  "leaf_ok st c =
     (case links st c of None \<Rightarrow> False
      | Some lc \<Rightarrow>
          l_cls lc = CLink \<and> l_callable lc \<and> l_children lc = [] \<and> l_layers lc = [] \<and>
          params_bound st lc \<and> list_all (simple_value st) (map snd (l_dict lc)))"

text \<open>A layer that is such a link, or a function.\<close>

definition leaf_layer :: "store \<Rightarrow> pyval \<Rightarrow> bool" where
  "leaf_layer st v =
     (case v of VLink c \<Rightarrow> leaf_ok st c | VFunc n i \<Rightarrow> True | VCallable i \<Rightarrow> True
      | _ \<Rightarrow> False)"





text \<open>
  One step of the loops of \<^verbatim>\<open>Sequential.copy\<close> and \<^verbatim>\<open>Sequential.__mul__\<close> changes the
  Sequential under construction, \<open>ret\<close>, and creates objects; every other object stays as it
  is.
\<close>

definition ext_except :: "ref \<Rightarrow> store \<Rightarrow> store \<Rightarrow> bool" where
  "ext_except ret st st' \<longleftrightarrow>
     (\<forall>x l. x \<noteq> ret \<and> links st x = Some l \<longrightarrow> links st' x = Some l) \<and>
     params st \<subseteq>\<^sub>m params st' \<and> arrays st \<subseteq>\<^sub>m arrays st' \<and> next_ref st \<le> next_ref st'"

text \<open>A link of the store whose parameter names are bound to parameters.\<close>

definition settled :: "store \<Rightarrow> ref \<Rightarrow> bool" where
  "settled st b \<longleftrightarrow> (case links st b of None \<Rightarrow> False | Some lb \<Rightarrow> params_bound st lb)"

definition layer_settled :: "ref \<Rightarrow> store \<Rightarrow> pyval \<Rightarrow> bool" where
  "layer_settled ret st v = (case v of VLink b \<Rightarrow> b \<noteq> ret \<and> settled st b | _ \<Rightarrow> True)"

text \<open>The value arrays that the registered parameters of a layer hold.\<close>

definition data_refs :: "store \<Rightarrow> pyval \<Rightarrow> ref list" where
  "data_refs st v =
     (case v of
        VLink c \<Rightarrow> concat (map (\<lambda>x. case x of None \<Rightarrow> [] | Some a \<Rightarrow> [a]) (own_data st c))
      | _ \<Rightarrow> [])"

text \<open>
  The two ways in which a layer of the result stems from a layer \<open>v\<close> of the original. A
  function is the same value in both. For a link, the layer of the first block is a new link
  whose parameters hold the value arrays of the original's parameters, the very same arrays;
  the layer of a later block is a new link whose parameters have a value exactly where the
  original's have one.
\<close>

definition shares_data :: "ref \<Rightarrow> store \<Rightarrow> store \<Rightarrow> pyval \<Rightarrow> pyval \<Rightarrow> bool" where
  "shares_data ret st0 st' v v' =
     (case v of
        VLink c \<Rightarrow>
          (\<exists>b. v' = VLink b \<and> b \<noteq> ret \<and> links st0 b = None \<and> settled st' b \<and>
               own_data st' b = own_data st0 c)
      | _ \<Rightarrow> v' = v)"


text \<open>
  The value arrays of the layers \<open>R\<close> lie between the references \<open>lo\<close> and \<open>hi\<close>, exist, and
  those of an earlier layer come before those of a later layer.
\<close>

definition window_ok :: "store \<Rightarrow> nat \<Rightarrow> nat \<Rightarrow> pyval list \<Rightarrow> bool" where
  "window_ok st lo hi R \<longleftrightarrow>
     sorted_wrt (\<lambda>v w. \<forall>a \<in> set (data_refs st v). \<forall>b \<in> set (data_refs st w). a < b) R \<and>
     (\<forall>v \<in> set R. \<forall>a \<in> set (data_refs st v). lo \<le> a \<and> a < hi \<and> arrays st a \<noteq> None)"



section \<open>Example objects\<close>

text \<open>A store with one array (reference 0) and one parameter holding it (reference 1).\<close>

definition demo_param_store :: store where
  "demo_param_store =
     snd (alloc_param
            (snd (alloc_array empty_store \<lparr>a_device = Host, a_elems = [1, 2]\<rparr>))
            \<lparr>p_name = None, p_data = Some 0, p_grad = None\<rparr>)"

text \<open>The same with a new plain Link (reference 2).\<close>

definition demo_link_store :: store where
  "demo_link_store = snd (Link_init demo_param_store CLink [] False)"

definition demo_reg_ops :: "reg_op list" where
  "demo_reg_ops =
     [InitScope 2 [SetAttr 2 ''W'' (VParam 1)],
      AddPersistent 2 ''mean'' (VInt 1),
      RegisterPersistent 2 ''W'',
      TryExcept [DelAttr 2 ''missing''],
      DelAttr 2 ''mean'']"

text \<open>
  A Chain on device 0 (reference 4) whose child \<^verbatim>\<open>x\<close> (reference 3) has a parameter
  \<^verbatim>\<open>W\<close> and a persistent array \<^verbatim>\<open>mean\<close>, both on the device.
\<close>

definition demo_gpu_chain :: store where
  "demo_gpu_chain =
     \<lparr>arrays = [0 \<mapsto> \<lparr>a_device = Gpu 0, a_elems = [1, 2]\<rparr>,
                2 \<mapsto> \<lparr>a_device = Gpu 0, a_elems = [5]\<rparr>],
      params = [1 \<mapsto> \<lparr>p_name = Some ''W'', p_data = Some 0, p_grad = None\<rparr>],
      links = [3 \<mapsto> (new_link CLink [] False)
                 \<lparr>l_params := [''W''], l_persistent := [''mean''], l_cpu := False,
                  l_device_id := Some 0, l_name := Some ''x'',
                  l_dict := [(''W'', VParam 1), (''mean'', VArray 2)]\<rparr>,
               4 \<mapsto> (new_link CChain [] False)
                 \<lparr>l_cpu := False, l_device_id := Some 0, l_dict := [(''x'', VLink 3)],
                  l_children_names := [''x'']\<rparr>],
      next_ref = 5, cur_device = 0\<rparr>"

text \<open>
  A Chain (reference 0) inside its initialization scope, with a child (reference 1)
  registered under the name \<^verbatim>\<open>x\<close>, and a second link (reference 2).
\<close>

definition demo_chain_store :: store where
  "demo_chain_store =
     upd_link
       (snd (Chain_add_link
               (snd (Link_init (snd (Link_init (snd (Link_init empty_store CChain [] False))
                  CLink [] False)) CLink [] False))
               0 ''x'' (VLink 1)))
       0 (\<lambda>l. l\<lparr>l_within_init_scope := True\<rparr>)"



text \<open>Three callable links (references 0, 1 and 2).\<close>

definition demo_three_links :: store where
  "demo_three_links =
     snd (Link_init (snd (Link_init (snd (Link_init empty_store CLink [] True))
       CLink [] True)) CLink [] True)"

text \<open>
  Two functions as layers: the first returns the pair of its argument and its argument, the
  second returns the number of arguments it received.
\<close>

definition demo_beh :: behaviour where
  "demo_beh layer args st =
     (case layer of
        VFunc n i \<Rightarrow>
          if i = 0 then (Inr (VTuple (args @ args)), st)
          else (Inr (VInt (int (length args))), st)
      | _ \<Rightarrow> (Inl TypeError, st))"

definition demo_pipeline :: store where
  "demo_pipeline = snd (Sequential_init empty_store [VFunc ''f'' 0, VFunc ''g'' 1])"



section \<open>Basic facts about the store\<close>

lemmas eval_defs = Link_init_def alloc_link_def alloc_array_def alloc_param_def empty_store_def
  new_link_def reserved_names_def link_slots_def property_names_def upd_link_def upd_param_def
  setattr_def delattr_def Link_setattr_def Link_delattr_def object_setattr_def
  object_delattr_def Link_add_persistent_def Link_register_persistent_def in_dict_def
  has_attr_def set_add_def set_discard_def Chain_setattr_def Chain_delattr_def
  Chain_add_link_def init_scope_def dict_get_def slot_value_def Sequential_init_def
  Sequential_append_def Sequential_insert_def py_insert_def py_pop_def is_callable_def
  is_lambda_def ChainList_add_link_def Sequential_delitem_def Sequential_clear_def
  Sequential_reduce_def child_names_def layers_of_def

lemma tuple_neq: "VTuple [v] \<noteq> v"
proof
  assume "VTuple [v] = v"
  then have "size (VTuple [v]) = size v" by simp
  then show False by simp
qed

lemma set_set_add [simp]: "set (set_add x xs) = insert x (set xs)"
  by (auto simp: set_add_def)

lemma set_set_discard [simp]: "set (set_discard x xs) = set xs - {x}"
  by (auto simp: set_discard_def)

lemma links_upd_param [simp]: "links (upd_param st p f) = links st"
  by (simp add: upd_param_def split: option.splits)

lemma links_alloc_array_eq: "alloc_array st a = (x, st') \<Longrightarrow> links st' = links st"
  by (auto simp: alloc_array_def)

lemma links_array_to: "array_to st dev a = (a', st') \<Longrightarrow> links st' = links st"
  by (auto simp: array_to_def alloc_array_def split: option.splits if_splits)

lemma links_opt_array_to: "opt_array_to st dev ao = (x, st') \<Longrightarrow> links st' = links st"
  by (auto simp: opt_array_to_def split: option.splits prod.splits dest: links_array_to)

lemma links_param_to [simp]: "links (param_to st dev p) = links st"
proof (cases "params st p")
  case None
  then show ?thesis by (simp add: param_to_def)
next
  case (Some q)
  obtain d st1 where a: "opt_array_to st dev (p_data q) = (d, st1)"
    by (cases "opt_array_to st dev (p_data q)")
  obtain g st2 where b: "opt_array_to st1 dev (p_grad q) = (g, st2)"
    by (cases "opt_array_to st1 dev (p_grad q)")
  have "links st1 = links st" using links_opt_array_to [OF a] .
  moreover have "links st2 = links st1" using links_opt_array_to [OF b] .
  ultimately show ?thesis using Some a b by (simp add: param_to_def)
qed

lemma upd_link_same: "links st r = Some l \<Longrightarrow> f l = l \<Longrightarrow> upd_link st r f = st"
  by (simp add: upd_link_def fun_upd_idem)

lemma links_upd_link:
  "links (upd_link st r f) =
     (case links st r of None \<Rightarrow> links st | Some l \<Rightarrow> (links st)(r \<mapsto> f l))"
  by (simp add: upd_link_def split: option.splits)

lemma upd_link_upd_link: "upd_link (upd_link st r f) r g = upd_link st r (\<lambda>l. g (f l))"
  by (simp add: upd_link_def split: option.splits)

lemma links_upd_link_other: "x \<noteq> r \<Longrightarrow> links (upd_link st r f) x = links st x"
  by (simp add: upd_link_def split: option.splits)

lemma child_ready_iff:
  "child_ready ready st l n \<longleftrightarrow> (\<exists>c. dict_get l n = Some (VLink c) \<and> ready st c)"
proof (cases "dict_get l n")
  case None
  then show ?thesis by (simp add: child_ready_def)
next
  case (Some v)
  then show ?thesis by (cases v) (auto simp: child_ready_def)
qed

section \<open>The registry sets are disjoint\<close>

lemma registry_disjoint_upd_link:
  "registry_disjoint st \<Longrightarrow> (\<And>l. link_disjoint l \<Longrightarrow> link_disjoint (f l)) \<Longrightarrow>
     registry_disjoint (upd_link st r f)"
  by (auto simp: registry_disjoint_def upd_link_def split: option.splits)

lemma rd_object_setattr:
  "registry_disjoint st \<Longrightarrow> registry_disjoint (snd (object_setattr st r n v))"
  by (auto simp: object_setattr_def link_disjoint_def intro!: registry_disjoint_upd_link
      split: option.splits)

lemma rd_object_delattr:
  "registry_disjoint st \<Longrightarrow> registry_disjoint (snd (object_delattr st r n))"
  by (auto simp: object_delattr_def link_disjoint_def intro!: registry_disjoint_upd_link
      split: option.splits)

lemma rd_register:
  "registry_disjoint st \<Longrightarrow>
     registry_disjoint (upd_link st r (\<lambda>l. l\<lparr>l_params := set_add n (l_params l),
                             l_persistent := set_discard n (l_persistent l)\<rparr>))"
  by (rule registry_disjoint_upd_link) (auto simp: link_disjoint_def)

lemma rd_Link_setattr:
  assumes a: "registry_disjoint st"
  shows "registry_disjoint (snd (Link_setattr st r n v))"
proof (cases "links st r")
  case None
  then show ?thesis using a by (simp add: Link_setattr_def)
next
  case (Some l)
  show ?thesis
  proof (cases "\<exists>p. v = VParam p \<and> l_within_init_scope l")
    case True
    then obtain p where v: "v = VParam p" and w: "l_within_init_scope l" by blast
    define st1 where "st1 = upd_param st p (\<lambda>q. q\<lparr>p_name := Some n\<rparr>)"
    define st2 where
      "st2 = (if \<not> l_cpu l then param_to st1 (target_device st1 (l_device_id l)) p else st1)"
    have "links st2 = links st" by (simp add: st2_def st1_def)
    then have "registry_disjoint st2" using a by (simp add: registry_disjoint_def)
    then have "registry_disjoint (snd (object_setattr
        (upd_link st2 r (\<lambda>l. l\<lparr>l_params := set_add n (l_params l),
                             l_persistent := set_discard n (l_persistent l)\<rparr>)) r n v))"
      by (intro rd_object_setattr rd_register)
    moreover have "Link_setattr st r n v = object_setattr
        (upd_link st2 r (\<lambda>l. l\<lparr>l_params := set_add n (l_params l),
                             l_persistent := set_discard n (l_persistent l)\<rparr>)) r n v"
      unfolding Link_setattr_def st2_def st1_def Let_def using Some v w by simp
    ultimately show ?thesis by simp
  next
    case False
    then have "Link_setattr st r n v = object_setattr st r n v"
      using Some by (auto simp: Link_setattr_def split: pyval.splits)
    then show ?thesis using a by (simp add: rd_object_setattr)
  qed
qed

lemma rd_Link_delattr:
  "registry_disjoint st \<Longrightarrow> registry_disjoint (snd (Link_delattr st r n))"
  unfolding Link_delattr_def
  by (intro rd_object_delattr registry_disjoint_upd_link) (auto simp: link_disjoint_def)

lemma rd_Chain_setattr:
  "registry_disjoint st \<Longrightarrow> registry_disjoint (snd (Chain_setattr st r n v))"
  by (auto simp: Chain_setattr_def Let_def link_disjoint_def
      intro!: rd_Link_setattr registry_disjoint_upd_link split: option.splits pyval.splits)

lemma rd_Chain_delattr:
  "registry_disjoint st \<Longrightarrow> registry_disjoint (snd (Chain_delattr st r n))"
  unfolding Chain_delattr_def
  by (intro rd_Link_delattr registry_disjoint_upd_link) (auto simp: link_disjoint_def)

lemma rd_setattr: "registry_disjoint st \<Longrightarrow> registry_disjoint (snd (setattr st r n v))"
  by (auto simp: setattr_def rd_Chain_setattr rd_Link_setattr split: option.splits)

lemma rd_delattr: "registry_disjoint st \<Longrightarrow> registry_disjoint (snd (delattr st r n))"
  by (auto simp: delattr_def rd_Chain_delattr rd_Link_delattr split: option.splits)

lemma rd_add_persistent:
  "registry_disjoint st \<Longrightarrow> registry_disjoint (snd (Link_add_persistent st r n v))"
  by (auto simp: Link_add_persistent_def link_disjoint_def intro!: registry_disjoint_upd_link
      split: option.splits)

lemma rd_register_persistent:
  "registry_disjoint st \<Longrightarrow> registry_disjoint (snd (Link_register_persistent st r n))"
  by (auto simp: Link_register_persistent_def link_disjoint_def
      intro!: registry_disjoint_upd_link split: option.splits)

lemma rd_run:
  shows "registry_disjoint st \<Longrightarrow> registry_disjoint (snd (run_op st x))"
    and "registry_disjoint st \<Longrightarrow> registry_disjoint (snd (run_ops st xs))"
proof (induction st x and st xs rule: run_op_run_ops.induct)
  case (5 st r ops)
  show ?case
  proof (cases "links st r")
    case None
    then show ?thesis using 5 by simp
  next
    case (Some l)
    have a: "registry_disjoint (upd_link st r (\<lambda>l. l\<lparr>l_within_init_scope := True\<rparr>))"
      using 5(2) by (rule registry_disjoint_upd_link) (simp add: link_disjoint_def)
    obtain res st2 where
      b: "run_ops (upd_link st r (\<lambda>l. l\<lparr>l_within_init_scope := True\<rparr>)) ops = (res, st2)"
      by (cases "run_ops (upd_link st r (\<lambda>l. l\<lparr>l_within_init_scope := True\<rparr>)) ops")
    have "registry_disjoint st2" using 5(1) [OF Some a] b by simp
    then have "registry_disjoint
        (upd_link st2 r (\<lambda>l'. l'\<lparr>l_within_init_scope := l_within_init_scope l\<rparr>))"
      by (rule registry_disjoint_upd_link) (simp add: link_disjoint_def)
    then show ?thesis using Some b by simp
  qed
next
  case (8 st x xs)
  then show ?case by (auto split: prod.splits sum.splits)
qed (simp_all add: rd_setattr rd_delattr rd_add_persistent rd_register_persistent)

lemma object_setattr_sets:
  assumes "links st r = Some l"
  shows "\<exists>l'. links (snd (object_setattr st r n v)) r = Some l' \<and>
           l_params l' = l_params l \<and> l_persistent l' = l_persistent l"
  using assms by (auto simp: object_setattr_def upd_link_def)

lemma setattr_param_registers:
  assumes "links st r = Some l" and "l_within_init_scope l"
  shows "\<exists>l'. links (snd (setattr st r n (VParam p))) r = Some l' \<and>
           n \<in> set (l_params l') \<and> n \<notin> set (l_persistent l')"
proof -
  define st1 where "st1 = upd_param st p (\<lambda>q. q\<lparr>p_name := Some n\<rparr>)"
  define st2 where
    "st2 = (if \<not> l_cpu l then param_to st1 (target_device st1 (l_device_id l)) p else st1)"
  define st3 where "st3 = upd_link st2 r (\<lambda>l. l\<lparr>l_params := set_add n (l_params l),
                             l_persistent := set_discard n (l_persistent l)\<rparr>)"
  have "links st2 = links st" by (simp add: st2_def st1_def)
  then have l3: "links st3 r = Some (l\<lparr>l_params := set_add n (l_params l),
                             l_persistent := set_discard n (l_persistent l)\<rparr>)"
    using assms(1) by (simp add: st3_def upd_link_def)
  have "Link_setattr st r n (VParam p) = object_setattr st3 r n (VParam p)"
    unfolding Link_setattr_def st3_def st2_def st1_def Let_def using assms by simp
  then have "setattr st r n (VParam p) = object_setattr st3 r n (VParam p)"
    using assms(1) by (simp add: setattr_def Chain_setattr_def)
  then show ?thesis using object_setattr_sets [OF l3, of n "VParam p"] by auto
qed

lemma add_persistent_registers:
  assumes "Link_add_persistent st r n v = (Inr (), st')"
  shows "\<exists>l'. links st' r = Some l' \<and> n \<in> set (l_persistent l') \<and> n \<notin> set (l_params l')"
  using assms
  by (auto simp: Link_add_persistent_def upd_link_def split: option.splits if_splits)

lemma register_persistent_registers:
  assumes "Link_register_persistent st r n = (Inr (), st')"
  shows "\<exists>l'. links st' r = Some l' \<and> n \<in> set (l_persistent l') \<and> n \<notin> set (l_params l')"
  using assms
  by (auto simp: Link_register_persistent_def upd_link_def split: option.splits if_splits)

text \<open>
  Claim C1. At every link the set of parameter names and the set of persistent names
  are disjoint, and stay so under every sequence of registration operations (assignment of
  any value, in particular of a Parameter inside an initialization scope, deletion,
  \<^verbatim>\<open>add_persistent\<close>, \<^verbatim>\<open>register_persistent\<close>, also nested in scopes and in \<^verbatim>\<open>try\<close> blocks,
  whether or not an operation raises). Registering a name in one set removes it from the
  other: after the assignment of a Parameter inside the scope the name is a parameter name
  and not a persistent name, and after a successful \<^verbatim>\<open>add_persistent\<close> or
  \<^verbatim>\<open>register_persistent\<close> it is a persistent name and not a parameter name. The operations
  address existing links, and assignment and deletion spare the bookkeeping attributes.
\<close>

theorem registry_sets_stay_disjoint:
  assumes "registry_disjoint st" and "list_all (op_modelled st) ops"
  shows "registry_disjoint (snd (run_ops st ops)) \<and>
         (\<forall>r l n p. links st r = Some l \<and> l_within_init_scope l \<longrightarrow>
            (\<exists>l'. links (snd (setattr st r n (VParam p))) r = Some l' \<and>
                  n \<in> set (l_params l') \<and> n \<notin> set (l_persistent l'))) \<and>
         (\<forall>r n v st'. Link_add_persistent st r n v = (Inr (), st') \<longrightarrow>
            (\<exists>l'. links st' r = Some l' \<and>
                  n \<in> set (l_persistent l') \<and> n \<notin> set (l_params l'))) \<and>
         (\<forall>r n st'. Link_register_persistent st r n = (Inr (), st') \<longrightarrow>
            (\<exists>l'. links st' r = Some l' \<and>
                  n \<in> set (l_persistent l') \<and> n \<notin> set (l_params l')))"
proof (intro conjI allI impI)
  show "registry_disjoint (snd (run_ops st ops))"
    using assms(1) by (rule rd_run(2))
next
  fix r l n p
  assume "links st r = Some l \<and> l_within_init_scope l"
  then show "\<exists>l'. links (snd (setattr st r n (VParam p))) r = Some l' \<and>
                  n \<in> set (l_params l') \<and> n \<notin> set (l_persistent l')"
    using setattr_param_registers by blast
next
  fix r n v st'
  assume "Link_add_persistent st r n v = (Inr (), st')"
  then show "\<exists>l'. links st' r = Some l' \<and>
                  n \<in> set (l_persistent l') \<and> n \<notin> set (l_params l')"
    by (rule add_persistent_registers)
next
  fix r n st'
  assume "Link_register_persistent st r n = (Inr (), st')"
  then show "\<exists>l'. links st' r = Some l' \<and>
                  n \<in> set (l_persistent l') \<and> n \<notin> set (l_params l')"
    by (rule register_persistent_registers)
qed

theorem registry_sets_stay_disjoint_witness:
  "registry_disjoint demo_link_store \<and>
   list_all (op_modelled demo_link_store) demo_reg_ops \<and>
   registry_disjoint (snd (run_ops demo_link_store demo_reg_ops)) \<and>
   (\<exists>l'. links (snd (run_ops demo_link_store demo_reg_ops)) 2 = Some l' \<and>
         l_params l' = [] \<and> l_persistent l' = [''W'']) \<and>
   (\<exists>l'. links (snd (Link_add_persistent demo_link_store 2 ''mean'' (VInt 1))) 2 = Some l' \<and>
         ''mean'' \<in> set (l_persistent l') \<and> ''mean'' \<notin> set (l_params l'))"
proof -
  have a: "registry_disjoint demo_link_store"
    by (simp add: registry_disjoint_def demo_link_store_def demo_param_store_def eval_defs
          link_disjoint_def)
  have b: "list_all (op_modelled demo_link_store) demo_reg_ops"
    by (simp add: demo_link_store_def demo_param_store_def demo_reg_ops_def eval_defs)
  note t = registry_sets_stay_disjoint [OF a b]
  have c: "registry_disjoint (snd (run_ops demo_link_store demo_reg_ops))"
    using t by blast
  have d: "\<exists>l'. links (snd (run_ops demo_link_store demo_reg_ops)) 2 = Some l' \<and>
         l_params l' = [] \<and> l_persistent l' = [''W'']"
    by (simp add: demo_link_store_def demo_param_store_def demo_reg_ops_def eval_defs)
  have e: "Link_add_persistent demo_link_store 2 ''mean'' (VInt 1) =
             (Inr (), snd (Link_add_persistent demo_link_store 2 ''mean'' (VInt 1)))"
    by (simp add: demo_link_store_def demo_param_store_def eval_defs)
  have f: "\<exists>l'. links (snd (Link_add_persistent demo_link_store 2 ''mean'' (VInt 1))) 2 = Some l' \<and>
         ''mean'' \<in> set (l_persistent l') \<and> ''mean'' \<notin> set (l_params l')"
    using t e by blast
  show ?thesis using a b c d f by blast
qed

section \<open>Deleting an attribute\<close>




section \<open>Registering a child under a name that is taken\<close>

text \<open>
  Claim C6. On a Chain that already has an attribute named \<open>x\<close> (in its dictionary or on its
  class), registering a child under the name \<open>x\<close> fails with AttributeError, both by
  assignment inside the initialization scope and by \<^verbatim>\<open>add_link\<close>, and the store is exactly
  what it was: the registry of the chain, its attributes, the scope flag and every other
  object, the original child included.
\<close>

theorem chain_registration_conflict:
  assumes "links st r = Some l" and "l_cls l = CChain" and "has_attr l x"
  shows "(l_within_init_scope l \<longrightarrow>
            Chain_setattr st r x (VLink c) = (Inl AttributeError, st)) \<and>
         Chain_add_link st r x (VLink c) = (Inl AttributeError, st)"
proof -
  have a: "l_within_init_scope l \<Longrightarrow> Chain_setattr st r x (VLink c) = (Inl AttributeError, st)"
    using assms by (simp add: Chain_setattr_def)
  have b: "Chain_add_link st r x (VLink c) = (Inl AttributeError, st)"
  proof (cases "in_dict l x")
    case True
    then show ?thesis using assms by (simp add: Chain_add_link_def)
  next
    case False
    define st1 where "st1 = upd_link st r (\<lambda>l. l\<lparr>l_within_init_scope := True\<rparr>)"
    have l1: "links st1 r = Some (l\<lparr>l_within_init_scope := True\<rparr>)"
      using assms(1) by (simp add: st1_def upd_link_def)
    have h: "has_attr (l\<lparr>l_within_init_scope := True\<rparr>) x"
      using assms(3) by (simp add: has_attr_def in_dict_def)
    have "setattr st1 r x (VLink c) = (Inl AttributeError, st1)"
      using l1 h assms(2) by (simp add: setattr_def Chain_setattr_def)
    moreover have "upd_link st1 r (\<lambda>l'. l'\<lparr>l_within_init_scope := l_within_init_scope l\<rparr>) = st"
      unfolding st1_def upd_link_upd_link using assms(1) by (intro upd_link_same) auto
    ultimately show ?thesis using assms(1) False
      by (simp add: Chain_add_link_def init_scope_def st1_def)
  qed
  show ?thesis using a b by simp
qed

theorem chain_registration_conflict_witness:
  "(\<exists>l. links demo_chain_store 0 = Some l \<and> l_cls l = CChain \<and> has_attr l ''x'' \<and>
        l_within_init_scope l \<and> l_children_names l = [''x''] \<and>
        map_of (l_dict l) ''x'' = Some (VLink 1)) \<and>
   Chain_setattr demo_chain_store 0 ''x'' (VLink 2) = (Inl AttributeError, demo_chain_store) \<and>
   Chain_add_link demo_chain_store 0 ''x'' (VLink 2) = (Inl AttributeError, demo_chain_store)"
proof -
  obtain l where l: "links demo_chain_store 0 = Some l" and c: "l_cls l = CChain"
    and h: "has_attr l ''x''" and w: "l_within_init_scope l"
    and n: "l_children_names l = [''x'']" and d: "map_of (l_dict l) ''x'' = Some (VLink 1)"
    by (simp add: demo_chain_store_def eval_defs)
  show ?thesis
    using chain_registration_conflict [OF l c h, of 2] l c h w n d by auto
qed

section \<open>Moving a link to the host twice\<close>

lemma to_cpu_params_live:
  "to_cpu_params st r ns = (res, st') \<Longrightarrow> links st r \<noteq> None \<Longrightarrow> links st' r \<noteq> None"
proof (induction st r ns rule: to_cpu_params.induct)
  case (1 st r)
  then show ?case by simp
next
  case (2 st r n ns)
  then show ?case
    by (auto split: option.splits pyval.splits)
qed

lemma to_cpu_persistent_live:
  "to_cpu_persistent st r ns = (res, st') \<Longrightarrow> links st r \<noteq> None \<Longrightarrow> links st' r \<noteq> None"
proof (induction st r ns rule: to_cpu_persistent.induct)
  case (1 st r)
  then show ?case by simp
next
  case (2 st r n ns)
  then show ?case
    by (auto simp: links_upd_link alloc_array_def
        split: option.splits pyval.splits device.splits prod.splits)
qed

lemma to_cpu_result_cpu:
  assumes "Link_to_cpu st r = (Inr (), st')" and "links st r = Some l"
  shows "\<exists>l'. links st' r = Some l' \<and> l_cpu l'"
proof (cases "l_cpu l")
  case True
  then show ?thesis using assms by (simp add: Link_to_cpu_def)
next
  case False
  obtain res1 st1 where a: "to_cpu_params st r (l_params l) = (res1, st1)"
    by (cases "to_cpu_params st r (l_params l)")
  obtain res2 st2 where b: "to_cpu_persistent st1 r (l_persistent l) = (res2, st2)"
    by (cases "to_cpu_persistent st1 r (l_persistent l)")
  have "links st1 r \<noteq> None" using to_cpu_params_live [OF a] assms(2) by simp
  then have "links st2 r \<noteq> None" using to_cpu_persistent_live [OF b] by simp
  then obtain l2 where l2: "links st2 r = Some l2" by auto
  have "st' = upd_link st2 r (\<lambda>l. l\<lparr>l_cpu := True, l_device_id := None\<rparr>)"
    using assms False a b by (auto simp: Link_to_cpu_def split: sum.splits)
  then show ?thesis using l2 by (simp add: upd_link_def)
qed

lemma host_frame_refl [simp]: "host_frame st st"
  by (simp add: host_frame_def)

lemma host_frame_trans: "host_frame a b \<Longrightarrow> host_frame b c \<Longrightarrow> host_frame a c"
  by (simp add: host_frame_def)

lemma host_frameD: "host_frame st st' \<Longrightarrow> links st x = Some l \<Longrightarrow> l_cpu l \<Longrightarrow> links st' x = Some l"
  by (simp add: host_frame_def)

lemma to_cpu_params_links: "to_cpu_params st r ns = (res, st') \<Longrightarrow> links st' = links st"
proof (induction st r ns rule: to_cpu_params.induct)
  case (1 st r)
  then show ?case by simp
next
  case (2 st r n ns)
  then show ?case
    by (auto split: option.splits pyval.splits)
qed

lemma to_cpu_persistent_others:
  "to_cpu_persistent st r ns = (res, st') \<Longrightarrow> x \<noteq> r \<Longrightarrow> links st' x = links st x"
proof (induction st r ns rule: to_cpu_persistent.induct)
  case (1 st r)
  then show ?case by simp
next
  case (2 st r n ns)
  then show ?case
    by (auto simp: links_upd_link alloc_array_def
        split: option.splits pyval.splits device.splits prod.splits)
qed

lemma to_cpu_persistent_cls:
  "to_cpu_persistent st r ns = (res, st') \<Longrightarrow>
     map_option l_cls (links st' r) = map_option l_cls (links st r)"
proof (induction st r ns rule: to_cpu_persistent.induct)
  case (1 st r)
  then show ?case by simp
next
  case (2 st r n ns)
  then show ?case
    by (auto simp: links_upd_link alloc_array_def
        split: option.splits pyval.splits device.splits prod.splits)
qed

lemma Link_to_cpu_frame:
  assumes "Link_to_cpu st r = (res, st')"
  shows "host_frame st st'"
proof (cases "links st r")
  case None
  then show ?thesis using assms by (simp add: Link_to_cpu_def)
next
  case (Some l)
  show ?thesis
  proof (cases "l_cpu l")
    case True
    then show ?thesis using assms Some by (simp add: Link_to_cpu_def)
  next
    case False
    obtain res1 st1 where a: "to_cpu_params st r (l_params l) = (res1, st1)"
      by (cases "to_cpu_params st r (l_params l)")
    obtain res2 st2 where b: "to_cpu_persistent st1 r (l_persistent l) = (res2, st2)"
      by (cases "to_cpu_persistent st1 r (l_persistent l)")
    have l1: "links st1 = links st" using to_cpu_params_links [OF a] .
    have l2: "\<And>x. x \<noteq> r \<Longrightarrow> links st2 x = links st x"
      using to_cpu_persistent_others [OF b] l1 by simp
    have "st' = st1 \<or> st' = st2 \<or>
          st' = upd_link st2 r (\<lambda>l. l\<lparr>l_cpu := True, l_device_id := None\<rparr>)"
      using assms Some False a b by (auto simp: Link_to_cpu_def split: sum.splits)
    then have o: "\<And>x. x \<noteq> r \<Longrightarrow> links st' x = links st x"
      using l1 l2 by (auto simp: links_upd_link_other)
    show ?thesis
      unfolding host_frame_def
    proof (intro allI impI)
      fix x l0 assume x: "links st x = Some l0 \<and> l_cpu l0"
      then have "x \<noteq> r" using Some False by auto
      then show "links st' x = Some l0" using o x by simp
    qed
  qed
qed

lemma Link_to_cpu_result:
  assumes "Link_to_cpu st r = (Inr (), st')" and "links st r = Some l"
  shows "\<exists>l'. links st' r = Some l' \<and> l_cpu l' \<and> l_cls l' = l_cls l"
proof (cases "l_cpu l")
  case True
  then show ?thesis using assms by (simp add: Link_to_cpu_def)
next
  case False
  obtain res1 st1 where a: "to_cpu_params st r (l_params l) = (res1, st1)"
    by (cases "to_cpu_params st r (l_params l)")
  obtain res2 st2 where b: "to_cpu_persistent st1 r (l_persistent l) = (res2, st2)"
    by (cases "to_cpu_persistent st1 r (l_persistent l)")
  have l1: "links st1 r = Some l" using to_cpu_params_links [OF a] assms(2) by simp
  have "map_option l_cls (links st2 r) = Some (l_cls l)"
    using to_cpu_persistent_cls [OF b] l1 by simp
  then obtain l2 where l2: "links st2 r = Some l2" "l_cls l2 = l_cls l" by auto
  have "st' = upd_link st2 r (\<lambda>l. l\<lparr>l_cpu := True, l_device_id := None\<rparr>)"
    using assms False a b by (auto simp: Link_to_cpu_def split: sum.splits)
  then show ?thesis using l2 by (simp add: upd_link_def)
qed

lemma on_host_Suc:
  "on_host (Suc k) st r \<longleftrightarrow>
     (\<exists>l. links st r = Some l \<and> l_cpu l \<and>
          (l_cls l = CChain \<longrightarrow> (\<forall>n \<in> set (l_children_names l). child_ready (on_host k) st l n)) \<and>
          (l_cls l = CChainList \<or> l_cls l = CSequential \<longrightarrow>
             (\<forall>c \<in> set (l_children l). on_host k st c)))"
proof (cases "links st r")
  case None
  then show ?thesis by simp
next
  case (Some l)
  then show ?thesis by (cases "l_cls l") (simp_all add: list_all_iff)
qed

lemma on_host_mono: "on_host k st r \<Longrightarrow> host_frame st st' \<Longrightarrow> on_host k st' r"
proof (induction k arbitrary: r)
  case 0
  then show ?case by simp
next
  case (Suc k)
  obtain l where l: "links st r = Some l" "l_cpu l"
    and a: "l_cls l = CChain \<longrightarrow> (\<forall>n \<in> set (l_children_names l). child_ready (on_host k) st l n)"
    and b: "l_cls l = CChainList \<or> l_cls l = CSequential \<longrightarrow>
             (\<forall>c \<in> set (l_children l). on_host k st c)"
    using Suc.prems(1) unfolding on_host_Suc by blast
  have l': "links st' r = Some l" using host_frameD [OF Suc.prems(2) l] .
  have a': "l_cls l = CChain \<longrightarrow> (\<forall>n \<in> set (l_children_names l). child_ready (on_host k) st' l n)"
    using a Suc.IH [OF _ Suc.prems(2)] unfolding child_ready_iff by blast
  have b': "l_cls l = CChainList \<or> l_cls l = CSequential \<longrightarrow>
             (\<forall>c \<in> set (l_children l). on_host k st' c)"
    using b Suc.IH [OF _ Suc.prems(2)] by blast
  show ?case unfolding on_host_Suc using l' l(2) a' b' by blast
qed


lemma to_cpu_named_frame:
  assumes go: "\<forall>st c res st'. go st c = (res, st') \<longrightarrow> host_frame st st'"
  shows "to_cpu_named go st r ns = (res, st') \<Longrightarrow> host_frame st st'"
proof (induction ns arbitrary: st)
  case Nil
  then show ?case by simp
next
  case (Cons n ns)
  show ?case
  proof (cases "links st r")
    case None
    then show ?thesis using Cons.prems by simp
  next
    case (Some l)
    show ?thesis
    proof (cases "\<exists>c. dict_get l n = Some (VLink c)")
      case False
      then have "st' = st" using Cons.prems Some
        by (auto split: option.splits pyval.splits)
      then show ?thesis by simp
    next
      case True
      then obtain c where c: "dict_get l n = Some (VLink c)" by blast
      obtain res1 st1 where g: "go st c = (res1, st1)" by (cases "go st c")
      have f1: "host_frame st st1" using go g by blast
      show ?thesis
      proof (cases res1)
        case (Inl e)
        then have "st' = st1" using Cons.prems Some c g by simp
        then show ?thesis using f1 by simp
      next
        case (Inr u)
        then have "to_cpu_named go st1 r ns = (res, st')" using Cons.prems Some c g by simp
        then show ?thesis using Cons.IH f1 host_frame_trans by blast
      qed
    qed
  qed
qed

lemma to_cpu_listed_frame:
  assumes go: "\<forall>st c res st'. go st c = (res, st') \<longrightarrow> host_frame st st'"
  shows "to_cpu_listed go st cs = (res, st') \<Longrightarrow> host_frame st st'"
proof (induction cs arbitrary: st)
  case Nil
  then show ?case by simp
next
  case (Cons c cs)
  obtain res1 st1 where g: "go st c = (res1, st1)" by (cases "go st c")
  have f1: "host_frame st st1" using go g by blast
  show ?case
  proof (cases res1)
    case (Inl e)
    then have "st' = st1" using Cons.prems g by simp
    then show ?thesis using f1 by simp
  next
    case (Inr u)
    then have "to_cpu_listed go st1 cs = (res, st')" using Cons.prems g by simp
    then show ?thesis using Cons.IH f1 host_frame_trans by blast
  qed
qed

lemma to_cpu_frame: "to_cpu k st r = (res, st') \<Longrightarrow> host_frame st st'"
proof (induction k arbitrary: st r res st')
  case 0
  then show ?case by simp
next
  case (Suc k)
  show ?case
  proof (cases "links st r")
    case None
    then show ?thesis using Suc.prems by simp
  next
    case (Some l)
    obtain res1 st1 where a: "Link_to_cpu st r = (res1, st1)" by (cases "Link_to_cpu st r")
    have f1: "host_frame st st1" using Link_to_cpu_frame [OF a] .
    show ?thesis
    proof (cases "l_cls l = CLink")
      case True
      then show ?thesis using Suc.prems Some a f1 by simp
    next
      case False
      show ?thesis
      proof (cases res1)
        case (Inl e)
        then have "st' = st1"
          using Suc.prems Some a False
          by (cases "l_cls l") (simp_all add: Chain_to_cpu_def ChainList_to_cpu_def)
        then show ?thesis using f1 by simp
      next
        case (Inr u)
        show ?thesis
        proof (cases "links st1 r")
          case None
          then have "st' = st1"
            using Suc.prems Some a False Inr
            by (cases "l_cls l") (simp_all add: Chain_to_cpu_def ChainList_to_cpu_def)
          then show ?thesis using f1 by simp
        next
          case l1: (Some l1)
          have "to_cpu_named (to_cpu k) st1 r (l_children_names l1) = (res, st') \<or>
                to_cpu_listed (to_cpu k) st1 (l_children l1) = (res, st')"
            using Suc.prems Some a False Inr l1
            by (cases "l_cls l") (simp_all add: Chain_to_cpu_def ChainList_to_cpu_def)
          moreover have ih: "\<forall>st c res st'. to_cpu k st c = (res, st') \<longrightarrow> host_frame st st'"
            using Suc.IH by blast
          ultimately have "host_frame st1 st'"
            using to_cpu_named_frame [of "to_cpu k", OF ih]
              to_cpu_listed_frame [of "to_cpu k", OF ih] by blast
          then show ?thesis using f1 host_frame_trans by blast
        qed
      qed
    qed
  qed
qed

lemma to_cpu_named_result:
  assumes fr: "\<forall>st c res st'. go st c = (res, st') \<longrightarrow> host_frame st st'"
    and ok: "\<forall>st c st'. go st c = (Inr (), st') \<longrightarrow> ready st' c"
    and mono: "\<forall>st st' c. ready st c \<and> host_frame st st' \<longrightarrow> ready st' c"
  shows "to_cpu_named go st r ns = (Inr (), st') \<Longrightarrow> links st r = Some l \<Longrightarrow> l_cpu l \<Longrightarrow>
           links st' r = Some l \<and> (\<forall>n \<in> set ns. child_ready ready st' l n)"
proof (induction ns arbitrary: st)
  case Nil
  then show ?case by simp
next
  case (Cons n ns)
  have "\<exists>c. dict_get l n = Some (VLink c)"
  proof (rule ccontr)
    assume "\<not> (\<exists>c. dict_get l n = Some (VLink c))"
    then have "fst (to_cpu_named go st r (n # ns)) \<noteq> Inr ()"
      using Cons.prems(2) by (auto split: option.splits pyval.splits)
    then show False using Cons.prems(1) by simp
  qed
  then obtain c where c: "dict_get l n = Some (VLink c)" by blast
  obtain res1 st1 where g: "go st c = (res1, st1)" by (cases "go st c")
  have r1: "res1 = Inr ()" using Cons.prems(1,2) c g by (cases res1) auto
  have rest: "to_cpu_named go st1 r ns = (Inr (), st')" using Cons.prems(1,2) c g r1 by simp
  have f1: "host_frame st st1" using fr g by blast
  have l1: "links st1 r = Some l" using host_frameD [OF f1 Cons.prems(2,3)] .
  have ih: "links st' r = Some l" "\<forall>n \<in> set ns. child_ready ready st' l n"
    using Cons.IH [OF rest l1 Cons.prems(3)] by simp_all
  have "ready st1 c" using ok g r1 by blast
  moreover have "host_frame st1 st'" using to_cpu_named_frame [of go, OF fr rest] .
  ultimately have "ready st' c" using mono by blast
  then have "child_ready ready st' l n" using c by (simp add: child_ready_iff)
  then show ?case using ih by simp
qed

lemma to_cpu_listed_result:
  assumes fr: "\<forall>st c res st'. go st c = (res, st') \<longrightarrow> host_frame st st'"
    and ok: "\<forall>st c st'. go st c = (Inr (), st') \<longrightarrow> ready st' c"
    and mono: "\<forall>st st' c. ready st c \<and> host_frame st st' \<longrightarrow> ready st' c"
  shows "to_cpu_listed go st cs = (Inr (), st') \<Longrightarrow> \<forall>c \<in> set cs. ready st' c"
proof (induction cs arbitrary: st)
  case Nil
  then show ?case by simp
next
  case (Cons c cs)
  obtain res1 st1 where g: "go st c = (res1, st1)" by (cases "go st c")
  have r1: "res1 = Inr ()" using Cons.prems g by (cases res1) auto
  have rest: "to_cpu_listed go st1 cs = (Inr (), st')" using Cons.prems g r1 by simp
  have "ready st1 c" using ok g r1 by blast
  moreover have "host_frame st1 st'" using to_cpu_listed_frame [of go, OF fr rest] .
  ultimately have "ready st' c" using mono by blast
  then show ?case using Cons.IH [OF rest] by simp
qed

lemma to_cpu_on_host: "to_cpu k st r = (Inr (), st') \<Longrightarrow> on_host k st' r"
proof (induction k arbitrary: st r st')
  case 0
  then show ?case by simp
next
  case (Suc k)
  obtain l where l: "links st r = Some l"
    using Suc.prems by (cases "links st r") auto
  obtain res1 st1 where a: "Link_to_cpu st r = (res1, st1)" by (cases "Link_to_cpu st r")
  have r1: "res1 = Inr ()"
    using Suc.prems l a
    by (cases res1; cases "l_cls l") (simp_all add: Chain_to_cpu_def ChainList_to_cpu_def)
  obtain l1 where l1: "links st1 r = Some l1" "l_cpu l1" "l_cls l1 = l_cls l"
    using Link_to_cpu_result [OF a [unfolded r1] l] by blast
  have fr: "\<forall>st c res st'. to_cpu k st c = (res, st') \<longrightarrow> host_frame st st'"
    using to_cpu_frame by blast
  have ok: "\<forall>st c st'. to_cpu k st c = (Inr (), st') \<longrightarrow> on_host k st' c"
    using Suc.IH by blast
  have mono: "\<forall>st st' c. on_host k st c \<and> host_frame st st' \<longrightarrow> on_host k st' c"
    using on_host_mono by blast
  show ?case
  proof (cases "l_cls l")
    case CLink
    then have "st' = st1" using Suc.prems l a by simp
    then show ?thesis unfolding on_host_Suc using l1 CLink by simp
  next
    case CChain
    have lp: "to_cpu_named (to_cpu k) st1 r (l_children_names l1) = (Inr (), st')"
      using Suc.prems l a r1 l1 CChain by (simp add: Chain_to_cpu_def)
    have "links st' r = Some l1 \<and> (\<forall>n \<in> set (l_children_names l1). child_ready (on_host k) st' l1 n)"
      using to_cpu_named_result [of "to_cpu k" "on_host k", OF fr ok mono lp l1(1,2)] .
    then show ?thesis unfolding on_host_Suc using l1 CChain by simp
  next
    case CChainList
    have lp: "to_cpu_listed (to_cpu k) st1 (l_children l1) = (Inr (), st')"
      using Suc.prems l a r1 l1 CChainList by (simp add: ChainList_to_cpu_def)
    have c: "\<forall>c \<in> set (l_children l1). on_host k st' c"
      using to_cpu_listed_result [of "to_cpu k" "on_host k", OF fr ok mono lp] .
    have "host_frame st1 st'" using to_cpu_listed_frame [of "to_cpu k", OF fr lp] .
    then have "links st' r = Some l1" using host_frameD l1 by blast
    then show ?thesis unfolding on_host_Suc using l1 c CChainList by simp
  next
    case CSequential
    have lp: "to_cpu_listed (to_cpu k) st1 (l_children l1) = (Inr (), st')"
      using Suc.prems l a r1 l1 CSequential by (simp add: ChainList_to_cpu_def)
    have c: "\<forall>c \<in> set (l_children l1). on_host k st' c"
      using to_cpu_listed_result [of "to_cpu k" "on_host k", OF fr ok mono lp] .
    have "host_frame st1 st'" using to_cpu_listed_frame [of "to_cpu k", OF fr lp] .
    then have "links st' r = Some l1" using host_frameD l1 by blast
    then show ?thesis unfolding on_host_Suc using l1 c CSequential by simp
  qed
qed

lemma to_cpu_named_noop:
  assumes "\<forall>c. ready st c \<longrightarrow> go st c = (Inr (), st)" and "links st r = Some l"
    and "\<forall>n \<in> set ns. child_ready ready st l n"
  shows "to_cpu_named go st r ns = (Inr (), st)"
  using assms(3)
proof (induction ns)
  case Nil
  then show ?case by simp
next
  case (Cons n ns)
  then obtain c where c: "dict_get l n = Some (VLink c)" "ready st c"
    unfolding child_ready_iff by auto
  then show ?case using assms(1,2) Cons by simp
qed

lemma to_cpu_listed_noop:
  assumes "\<forall>c. ready st c \<longrightarrow> go st c = (Inr (), st)" and "\<forall>c \<in> set cs. ready st c"
  shows "to_cpu_listed go st cs = (Inr (), st)"
  using assms(2) by (induction cs) (simp_all add: assms(1))

lemma on_host_noop: "on_host k st r \<Longrightarrow> to_cpu k st r = (Inr (), st)"
proof (induction k arbitrary: r)
  case 0
  then show ?case by simp
next
  case (Suc k)
  obtain l where l: "links st r = Some l" "l_cpu l"
    and a: "l_cls l = CChain \<longrightarrow> (\<forall>n \<in> set (l_children_names l). child_ready (on_host k) st l n)"
    and b: "l_cls l = CChainList \<or> l_cls l = CSequential \<longrightarrow>
             (\<forall>c \<in> set (l_children l). on_host k st c)"
    using Suc.prems unfolding on_host_Suc by blast
  have lk: "Link_to_cpu st r = (Inr (), st)" using l by (simp add: Link_to_cpu_def)
  have ih: "\<forall>c. on_host k st c \<longrightarrow> to_cpu k st c = (Inr (), st)" using Suc.IH by blast
  show ?case
  proof (cases "l_cls l")
    case CLink
    then show ?thesis using l lk by simp
  next
    case CChain
    have "to_cpu_named (to_cpu k) st r (l_children_names l) = (Inr (), st)"
      using to_cpu_named_noop [of "on_host k" st "to_cpu k", OF ih l(1)] a CChain by simp
    then show ?thesis using l lk CChain by (simp add: Chain_to_cpu_def)
  next
    case CChainList
    have "to_cpu_listed (to_cpu k) st (l_children l) = (Inr (), st)"
      using to_cpu_listed_noop [of "on_host k" st "to_cpu k", OF ih] b CChainList by simp
    then show ?thesis using l lk CChainList by (simp add: ChainList_to_cpu_def)
  next
    case CSequential
    have "to_cpu_listed (to_cpu k) st (l_children l) = (Inr (), st)"
      using to_cpu_listed_noop [of "on_host k" st "to_cpu k", OF ih] b CSequential by simp
    then show ?thesis using l lk CSequential by (simp add: ChainList_to_cpu_def)
  qed
qed

text \<open>
  Claim C5. \<^verbatim>\<open>to_cpu()\<close> on a link of any class whose hierarchy is in host state returns
  without an error and leaves the whole store as it is (the device state, the parameters and
  the persistent values of every node among it). Whenever a call of \<^verbatim>\<open>to_cpu()\<close> returns,
  from whatever state, the hierarchy is in host state, so a second call right after it changes
  nothing and raises nothing.
\<close>

theorem link_to_cpu_idempotent:
  "(on_host k st r \<longrightarrow> to_cpu k st r = (Inr (), st)) \<and>
   (\<forall>st'. to_cpu k st r = (Inr (), st') \<longrightarrow> on_host k st' r \<and> to_cpu k st' r = (Inr (), st'))"
  using on_host_noop to_cpu_on_host by blast

theorem link_to_cpu_idempotent_witness:
  "\<not> on_host 2 demo_gpu_chain 4 \<and> fst (to_cpu 2 demo_gpu_chain 4) = Inr () \<and>
   on_host 2 (snd (to_cpu 2 demo_gpu_chain 4)) 4 \<and>
   attr_of (snd (to_cpu 2 demo_gpu_chain 4)) 3 ''mean'' = Some (VArray 6) \<and>
   to_cpu 2 (snd (to_cpu 2 demo_gpu_chain 4)) 4 = (Inr (), snd (to_cpu 2 demo_gpu_chain 4))"
proof -
  have a: "\<not> on_host 2 demo_gpu_chain 4" "fst (to_cpu 2 demo_gpu_chain 4) = Inr ()"
    "attr_of (snd (to_cpu 2 demo_gpu_chain 4)) 3 ''mean'' = Some (VArray 6)"
    by code_simp+
  have c: "to_cpu 2 demo_gpu_chain 4 = (Inr (), snd (to_cpu 2 demo_gpu_chain 4))"
    using a(2) by (cases "to_cpu 2 demo_gpu_chain 4") simp
  show ?thesis using link_to_cpu_idempotent [of 2 demo_gpu_chain 4] a c by blast
qed

section \<open>The forward pass of a Sequential\<close>

text \<open>
  Claim C3. A Sequential with the two layers \<open>f\<close> and \<open>g\<close>, called on one argument \<open>x\<close>,
  calls \<open>f\<close> on \<open>x\<close>; when \<open>f\<close> returns a tuple, \<open>g\<close> is called with the components of the
  tuple as its arguments (so a pair \<open>(a, b)\<close> gives \<open>g(a, b)\<close>), and when \<open>f\<close> returns any
  other value \<open>y\<close>, \<open>g\<close> is called on \<open>y\<close> alone; the result of \<open>g\<close> is the result of the
  call. An exception of \<open>f\<close> ends the call.
\<close>

theorem sequential_call_two_layers:
  assumes "links st r = Some l" and "l_layers l = [f, g]"
  shows "Sequential_call beh st r [x] =
     (case beh f [x] st of
        (Inl e, st1) \<Rightarrow> (Inl e, st1)
      | (Inr (VTuple ys), st1) \<Rightarrow> beh g ys st1
      | (Inr y, st1) \<Rightarrow> beh g [y] st1)"
  using assms
  by (auto simp add: Sequential_call_def split: prod.splits sum.splits pyval.splits)

theorem sequential_call_two_layers_witness:
  "(\<exists>l. links demo_pipeline 0 = Some l \<and> l_layers l = [VFunc ''f'' 0, VFunc ''g'' 1]) \<and>
   demo_beh (VFunc ''f'' 0) [VInt 7] demo_pipeline = (Inr (VTuple [VInt 7, VInt 7]), demo_pipeline) \<and>
   demo_beh (VFunc ''g'' 1) [VInt 7, VInt 7] demo_pipeline = (Inr (VInt 2), demo_pipeline) \<and>
   Sequential_call demo_beh demo_pipeline 0 [VInt 7] = (Inr (VInt 2), demo_pipeline)"
proof -
  obtain l where l: "links demo_pipeline 0 = Some l"
    and y: "l_layers l = [VFunc ''f'' 0, VFunc ''g'' 1]"
    by (simp add: demo_pipeline_def eval_defs)
  have a: "demo_beh (VFunc ''f'' 0) [VInt 7] demo_pipeline =
             (Inr (VTuple [VInt 7, VInt 7]), demo_pipeline)"
    by (simp add: demo_beh_def)
  have b: "demo_beh (VFunc ''g'' 1) [VInt 7, VInt 7] demo_pipeline =
             (Inr (VInt 2), demo_pipeline)"
    by (simp add: demo_beh_def)
  have "Sequential_call demo_beh demo_pipeline 0 [VInt 7] = (Inr (VInt 2), demo_pipeline)"
    using sequential_call_two_layers [OF l y, of demo_beh "VInt 7"] a b by simp
  then show ?thesis using l y a b by blast
qed

text \<open>
  Claim C10. A Sequential without layers, called on one argument \<open>v\<close>, returns the tuple of
  its arguments, that is the one-element tuple \<open>(v,)\<close>, which is not \<open>v\<close>.
\<close>

theorem empty_sequential_returns_argument_tuple:
  assumes "links st r = Some l" and "l_layers l = []"
  shows "Sequential_call beh st r [v] = (Inr (VTuple [v]), st) \<and> VTuple [v] \<noteq> v"
  using assms by (simp add: Sequential_call_def tuple_neq)

theorem empty_sequential_returns_argument_tuple_witness:
  "(\<exists>l. links (snd (Sequential_init empty_store [])) 0 = Some l \<and> l_layers l = []) \<and>
   Sequential_call demo_beh (snd (Sequential_init empty_store [])) 0 [VInt 3] =
     (Inr (VTuple [VInt 3]), snd (Sequential_init empty_store [])) \<and>
   VTuple [VInt 3] \<noteq> VInt 3"
proof -
  obtain l where l: "links (snd (Sequential_init empty_store [])) 0 = Some l"
    and y: "l_layers l = []"
    by (simp add: eval_defs)
  show ?thesis
    using empty_sequential_returns_argument_tuple [OF l y, of demo_beh "VInt 3"] l y by blast
qed

section \<open>Names of the children after a deletion\<close>

text \<open>
  Claim C2 says that after deleting the first of three children the remaining two are named
  \<^verbatim>\<open>0\<close> and \<^verbatim>\<open>1\<close>. \<^verbatim>\<open>Sequential.__delitem__\<close> removes the child and renames nothing: a
  Sequential built from three links names them \<^verbatim>\<open>0\<close>, \<^verbatim>\<open>1\<close>, \<^verbatim>\<open>2\<close>, and after
  \<^verbatim>\<open>del seq[0]\<close> the two children left are still named \<^verbatim>\<open>1\<close> and \<^verbatim>\<open>2\<close>. A link appended
  next is named \<^verbatim>\<open>2\<close> as well.
\<close>

theorem sequential_delitem_keeps_names:
  "fst (Sequential_init demo_three_links [VLink 0, VLink 1, VLink 2]) = Inr 3 \<and>
   child_names (snd (Sequential_init demo_three_links [VLink 0, VLink 1, VLink 2])) 3 =
     [Some ''0'', Some ''1'', Some ''2''] \<and>
   fst (Sequential_delitem
          (snd (Sequential_init demo_three_links [VLink 0, VLink 1, VLink 2])) 3 0) = Inr () \<and>
   child_names
     (snd (Sequential_delitem
             (snd (Sequential_init demo_three_links [VLink 0, VLink 1, VLink 2])) 3 0)) 3 =
     [Some ''1'', Some ''2''] \<and>
   child_names
     (snd (Sequential_append
        (snd (Sequential_delitem
                (snd (Sequential_init demo_three_links [VLink 0, VLink 1, VLink 2])) 3 0))
        3 (VLink 0))) 3 =
     [Some ''1'', Some ''2'', Some ''2'']"
  by (simp add: demo_three_links_def eval_defs str_nat.simps digit_chars_def)

section \<open>The counter of lambdas\<close>

text \<open>
  Claim C7 says that a Sequential without anonymous callables is serialized without the
  error. \<^verbatim>\<open>Sequential.clear\<close> empties the layer list and leaves the counter as it is: a
  Sequential built from one lambda and then cleared has no layer, its counter is still 1,
  and \<^verbatim>\<open>__reduce__\<close> raises ValueError.
\<close>

theorem sequential_clear_keeps_lambda_count:
  "fst (Sequential_init empty_store [VFunc ''<lambda>'' 0]) = Inr 0 \<and>
   layers_of (snd (Sequential_init empty_store [VFunc ''<lambda>'' 0])) 0 =
     [VFunc ''<lambda>'' 0] \<and>
   fst (Sequential_clear (snd (Sequential_init empty_store [VFunc ''<lambda>'' 0])) 0) = Inr () \<and>
   layers_of
     (snd (Sequential_clear (snd (Sequential_init empty_store [VFunc ''<lambda>'' 0])) 0)) 0 = [] \<and>
   fst (Sequential_reduce
          (snd (Sequential_clear (snd (Sequential_init empty_store [VFunc ''<lambda>'' 0])) 0))
          0) = Inl ValueError"
  by (simp add: eval_defs clear_loop.simps)

section \<open>Copying a link\<close>

lemma store_le_refl [simp]: "store_le st st"
  by (simp add: store_le_def)





lemma heap_ok_fresh:
  "heap_ok st \<Longrightarrow> arrays st (next_ref st) = None \<and> params st (next_ref st) = None \<and> links st (next_ref st) = None"
  by (simp add: heap_ok_def)




lemma heap_ok_upd_link [simp]: "heap_ok (upd_link st r f) = heap_ok st"
  by (auto simp: heap_ok_def upd_link_def split: option.splits)

lemma heap_ok_upd_param [simp]: "heap_ok (upd_param st r f) = heap_ok st"
  by (auto simp: heap_ok_def upd_param_def split: option.splits)


lemma store_le_upd_param:
  "store_le st0 st \<Longrightarrow> params st0 r = None \<Longrightarrow> store_le st0 (upd_param st r f)"
  by (auto simp: store_le_def upd_param_def map_le_def split: option.splits)

lemma params_upd_link [simp]: "params (upd_link st r f) = params st"
  by (simp add: upd_link_def split: option.splits)
lemma arrays_upd_link [simp]: "arrays (upd_link st r f) = arrays st"
  by (simp add: upd_link_def split: option.splits)
lemma next_upd_link [simp]: "next_ref (upd_link st r f) = next_ref st"
  by (simp add: upd_link_def split: option.splits)
lemma arrays_upd_param [simp]: "arrays (upd_param st r f) = arrays st"
  by (simp add: upd_param_def split: option.splits)
lemma next_upd_param [simp]: "next_ref (upd_param st r f) = next_ref st"
  by (simp add: upd_param_def split: option.splits)

lemma links_upd_link_at: "links st r = Some l \<Longrightarrow> links (upd_link st r f) r = Some (f l)"
  by (simp add: upd_link_def)

lemma params_upd_param_other: "x \<noteq> r \<Longrightarrow> params (upd_param st r f) x = params st x"
  by (simp add: upd_param_def split: option.splits)

lemma params_upd_param_at: "params st r = Some l \<Longrightarrow> params (upd_param st r f) r = Some (f l)"
  by (simp add: upd_param_def)

lemma slot_value_not_ref [simp]:
  "slot_value l n \<noteq> VParam p" "slot_value l n \<noteq> VLink c" "slot_value l n \<noteq> VArray a"
  by (simp_all add: slot_value_def split: option.splits)













lemma py_insert_end [simp]: "py_insert (int (length xs)) x xs = xs @ [x]"
  by (simp add: py_insert_def)



lemma heap_ok_links_upd:
  "heap_ok st \<Longrightarrow> links st r \<noteq> None \<Longrightarrow> heap_ok (st\<lparr>links := (links st)(r \<mapsto> l)\<rparr>)"
  by (auto simp: heap_ok_def)

lemma store_le_links_upd:
  "store_le st0 st \<Longrightarrow> links st0 r = None \<Longrightarrow> store_le st0 (st\<lparr>links := (links st)(r \<mapsto> l)\<rparr>)"
  by (auto simp: store_le_def map_le_def)




lemma Sequential_init_empty:
  assumes "heap_ok st"
  shows "Sequential_init st [] = (Inr (next_ref st), snd (alloc_link st (new_link CSequential sequential_cls_attrs True)))"
  by (simp add: Sequential_init_def alloc_link_def)














section \<open>Repeating a Sequential\<close>















lemma ext_except_refl [simp]: "ext_except ret st st"
  by (simp add: ext_except_def)












lemma shares_data_settled: "shares_data ret st0 st v v' \<Longrightarrow> leaf_layer st0 v \<Longrightarrow> layer_settled ret st v'"
  by (cases v) (auto simp: shares_data_def layer_settled_def leaf_layer_def)









lemma data_refs_func [simp]:
  "data_refs st (VFunc n i) = []" "data_refs st (VCallable i) = []"
  by (simp_all add: data_refs_def)




lemma window_ok_Nil [simp]: "window_ok st lo hi []"
  by (simp add: window_ok_def)






















end
